theory Spec2Isabelle
  imports Complex_Main
begin

section \<open>Data model\<close>

text \<open>
  A shallow embedding of \<^verbatim>\<open>adb_automation.py\<close>. Screen coordinates are Python
  integers (\<open>int\<close>); a match is the pair \<open>(x, y)\<close> the source returns; a rectangle is
  the list \<open>[x, y, w, h]\<close> the source hands to OpenCV. Confidence scores are the exact
  values of the entries of the matrix \<^verbatim>\<open>cv2.matchTemplate\<close> returns, ordered as numbers.
\<close>

type_synonym point = "int \<times> int"
type_synonym rect = "int \<times> int \<times> int \<times> int"
type_synonym scores = "real list list"

text \<open>
  The one exception that no function of the source catches: \<^verbatim>\<open>cv2.error\<close>, raised by
  \<^verbatim>\<open>cv2.matchTemplate\<close> (for example for a template larger than the frame).
\<close>

datatype error = CvError

text \<open>
  OpenCV is an external library, not code of this repository. The functions whose result
  depends on pixel data or on OpenCV's clustering are parameters of the model:
  \<open>imread\<close> decodes a file's bytes (\<open>None\<close> where \<^verbatim>\<open>cv2.imread\<close> returns
  \<^verbatim>\<open>None\<close>), \<open>shape\<close> is \<^verbatim>\<open>image.shape[:2]\<close>, that is (rows, columns),
  \<open>matchTemplate\<close> is \<^verbatim>\<open>cv2.matchTemplate(img, template, cv2.TM_CCOEFF_NORMED)\<close>
  (a matrix given as its list of rows, or the exception), and \<open>groupRectangles\<close> is
  \<^verbatim>\<open>cv2.groupRectangles(rects, groupThreshold, eps)\<close>, returning rectangles and weights.
  Each is a function of its arguments: the same images give the same scores. The
  rectangles OpenCV returns hold 32-bit integers; they are averages of coordinates inside
  the frame, far from the ends of that range, so the model computes with them as
  integers.
\<close>

record ('b, 'i) cv2 =
  imread :: "'b \<Rightarrow> 'i option"
  shape :: "'i \<Rightarrow> nat \<times> nat"
  matchTemplate :: "'i \<Rightarrow> 'i \<Rightarrow> error + scores"
  groupRectangles :: "rect list \<Rightarrow> nat \<Rightarrow> real \<Rightarrow> rect list \<times> int list"

text \<open>
  Every gesture the program sends to the device is logged with the place of the source
  that sent it; the tag changes nothing in what is sent.
\<close>

datatype site =
  ClosePhoto | Download | GoBack | OpenEntry | PictureScroll | FallbackScroll | EntryScroll

datatype event =
  Screencap bool
  | Tap site int int
  | Swipe site int int int int int
  | Sleep nat

text \<open>
  The world the program runs in. \<open>captures s n\<close> is the outcome of the \<open>n\<close>-th call of
  \<^verbatim>\<open>adb exec-out screencap -p\<close>: whether the command succeeded, and the bytes it wrote
  to the output file (which \<^verbatim>\<open>open(output_path, "wb")\<close> has created or truncated before the
  command runs, so the file is overwritten on failure too). \<open>clock\<close> counts the captures
  made so far, \<open>files\<close> is the working directory, \<open>trace\<close> the log of what the program
  did to the device. Standard output is not modelled.
\<close>

record 'b world =
  captures :: "nat \<Rightarrow> bool \<times> 'b"
  clock :: nat
  files :: "string \<Rightarrow> 'b option"
  trace :: "event list"

section \<open>Device bridge\<close>

text \<open>
  \<^verbatim>\<open>take_screenshot(output_path)\<close>: one capture per call; both exceptions the source
  catches (\<^verbatim>\<open>CalledProcessError\<close>, \<^verbatim>\<open>FileNotFoundError\<close>) become the result \<open>False\<close>.
\<close>

definition take_screenshot :: "string \<Rightarrow> 'b world \<Rightarrow> bool \<times> 'b world" where
  "take_screenshot output_path s =
     (let (ok, bytes) = captures s (clock s)
      in (ok, s\<lparr>clock := Suc (clock s),
                 files := (files s)(output_path \<mapsto> bytes),
                 trace := trace s @ [Screencap ok]\<rparr>))"

text \<open>
  \<^verbatim>\<open>tap_element\<close>, \<^verbatim>\<open>scroll\<close> and \<^verbatim>\<open>time.sleep\<close>. The source returns whether the
  command was dispatched; no caller reads that result, so the model returns the world only.
\<close>

definition tap_element :: "site \<Rightarrow> int \<Rightarrow> int \<Rightarrow> 'b world \<Rightarrow> 'b world" where
  "tap_element st x y s = s\<lparr>trace := trace s @ [Tap st x y]\<rparr>"

definition scroll :: "site \<Rightarrow> int \<Rightarrow> int \<Rightarrow> int \<Rightarrow> int \<Rightarrow> int \<Rightarrow> 'b world \<Rightarrow> 'b world" where
  "scroll st start_x start_y end_x end_y duration s =
     s\<lparr>trace := trace s @ [Swipe st start_x start_y end_x end_y duration]\<rparr>"

definition sleep :: "nat \<Rightarrow> 'b world \<Rightarrow> 'b world" where
  "sleep secs s = s\<lparr>trace := trace s @ [Sleep secs]\<rparr>"

definition scroll_down_one_entry :: "point \<Rightarrow> 'b world \<Rightarrow> 'b world" where
  "scroll_down_one_entry current_rightarrow_location s =
     scroll EntryScroll 500 (snd current_rightarrow_location) 500 450 1000 s"

definition scroll_down_one_picture :: "point \<Rightarrow> 'b world \<Rightarrow> 'b world" where
  "scroll_down_one_picture current_download_location s =
     (let cur_x = 500; cur_y = snd current_download_location; new_y = 495
      in scroll PictureScroll cur_x cur_y cur_x new_y 1000 s)"

section \<open>Template matching\<close>

text \<open>
  The entries of a score matrix in row-major order, each with its location \<open>(x, y)\<close>:
  \<open>x\<close> is the column and \<open>y\<close> the row, as in OpenCV's points.
\<close>

definition row_cells :: "nat \<Rightarrow> real list \<Rightarrow> (real \<times> point) list" where
  "row_cells y row = map (\<lambda>(x, v). (v, (int x, int y))) (enumerate 0 row)"

definition cells :: "scores \<Rightarrow> (real \<times> point) list" where
  "cells res = concat (map (\<lambda>(y, row). row_cells y row) (enumerate 0 res))"

text \<open>
  \<^verbatim>\<open>cv2.minMaxLoc(res)\<close>: the smallest and the largest entry and where they stand (the
  first such entry of the scan); for a matrix with no entry OpenCV reports the values 0
  at \<open>(-1, -1)\<close>.
\<close>

fun scan_max :: "real \<times> point \<Rightarrow> (real \<times> point) list \<Rightarrow> real \<times> point" where
  "scan_max b [] = b"
| "scan_max b (c # cs) = scan_max (if fst b < fst c then c else b) cs"

fun scan_min :: "real \<times> point \<Rightarrow> (real \<times> point) list \<Rightarrow> real \<times> point" where
  "scan_min b [] = b"
| "scan_min b (c # cs) = scan_min (if fst c < fst b then c else b) cs"

definition minMaxLoc :: "scores \<Rightarrow> real \<times> real \<times> point \<times> point" where
  "minMaxLoc res =
     (case cells res of
        [] \<Rightarrow> (0, 0, (- 1, - 1), (- 1, - 1))
      | c # cs \<Rightarrow>
          (fst (scan_min c cs), fst (scan_max c cs), snd (scan_min c cs), snd (scan_max c cs)))"

text \<open>
  \<^verbatim>\<open>find_element(template_path, screen_path="screen.png", threshold=0.8)\<close>.
\<close>

definition find_element ::
  "('b, 'i) cv2 \<Rightarrow> (string \<Rightarrow> 'b option) \<Rightarrow> string \<Rightarrow> string \<Rightarrow> real \<Rightarrow> error + point option" where
  "find_element cv fs template_path screen_path threshold =
     (case fs template_path of
        None \<Rightarrow> Inr None
      | Some template_bytes \<Rightarrow>
          (case fs screen_path of
             None \<Rightarrow> Inr None
           | Some screen_bytes \<Rightarrow>
               (case imread cv screen_bytes of
                  None \<Rightarrow> Inr None
                | Some img_rgb \<Rightarrow>
                    (case imread cv template_bytes of
                       None \<Rightarrow> Inr None
                     | Some template \<Rightarrow>
                         (let (h, w) = shape cv template in
                          case matchTemplate cv img_rgb template of
                            Inl e \<Rightarrow> Inl e
                          | Inr res \<Rightarrow>
                              (let (min_val, max_val, min_loc, max_loc) = minMaxLoc res in
                               if threshold \<le> max_val
                               then Inr (Some (fst max_loc + int w div 2,
                                               snd max_loc + int h div 2))
                               else Inr None))))))"

text \<open>
  \<^verbatim>\<open>np.where(res >= threshold)\<close> followed by \<^verbatim>\<open>list(zip(*loc[::-1]))\<close>: the locations
  \<open>(x, y)\<close> of the entries at or above the threshold, in row-major order.
\<close>

definition where_ge :: "scores \<Rightarrow> real \<Rightarrow> point list" where
  "where_ge res threshold = map snd (filter (\<lambda>(v, p). threshold \<le> v) (cells res))"

text \<open>
  \<^verbatim>\<open>find_all_elements(template_path, screen_path="screen.png", threshold=0.8)\<close>.
\<close>

definition find_all_elements ::
  "('b, 'i) cv2 \<Rightarrow> (string \<Rightarrow> 'b option) \<Rightarrow> string \<Rightarrow> string \<Rightarrow> real \<Rightarrow> error + point list" where
  "find_all_elements cv fs template_path screen_path threshold =
     (case fs template_path of
        None \<Rightarrow> Inr []
      | Some template_bytes \<Rightarrow>
          (case fs screen_path of
             None \<Rightarrow> Inr []
           | Some screen_bytes \<Rightarrow>
               (case imread cv screen_bytes of
                  None \<Rightarrow> Inr []
                | Some img_rgb \<Rightarrow>
                    (case imread cv template_bytes of
                       None \<Rightarrow> Inr []
                     | Some template \<Rightarrow>
                         (let (h, w) = shape cv template in
                          case matchTemplate cv img_rgb template of
                            Inl e \<Rightarrow> Inl e
                          | Inr res \<Rightarrow>
                              (let points = where_ge res threshold in
                               if points = [] then Inr []
                               else
                                 (let rects = map (\<lambda>(x, y). (x, y, int w, int h)) points;
                                      (grouped, weights) = groupRectangles cv rects 1 (2 / 10)
                                  in Inr (map (\<lambda>(x, y, w, h). (x + w div 2, y + h div 2))
                                            grouped))))))))"

text \<open>The default arguments every call of the source uses.\<close>

definition screen_png :: string where
  "screen_png = ''screen.png''"

definition default_threshold :: real where
  "default_threshold = 8 / 10"

section \<open>The per-entry loop\<close>

text \<open>How a loop body ends: it falls through to the next iteration, or leaves the loop.\<close>

datatype 'x flow = Next | Exit 'x

text \<open>
  How the loop \<^verbatim>\<open>for _ in range(100)\<close> of \<^verbatim>\<open>download_all_photos_from_entry\<close> ends:
  the range is used up, the \<^verbatim>\<open>break\<close> after a failed screenshot, the \<^verbatim>\<open>break\<close> at the
  end of the entry, or an exception nothing catches.
\<close>

datatype entry_exit = Budget_exhausted | Screenshot_failed | Entry_end | Uncaught error

text \<open>The loop \<^verbatim>\<open>for c in coords\<close> at the end of an entry.\<close>

fun tap_downloads :: "bool \<Rightarrow> point list \<Rightarrow> 'b world \<Rightarrow> 'b world" where
  "tap_downloads dry_run [] s = s"
| "tap_downloads dry_run (c # cs) s =
     tap_downloads dry_run cs
       (if \<not> dry_run then sleep 1 (tap_element Download (fst c) (snd c) s) else s)"

text \<open>One iteration of the loop; \<open>dry_run\<close> is the global \<^verbatim>\<open>args.dry_run\<close>.\<close>

definition entry_iter :: "bool \<Rightarrow> ('b, 'i) cv2 \<Rightarrow> 'b world \<Rightarrow> entry_exit flow \<times> 'b world" where
  "entry_iter dry_run cv s =
     (let (ok, s1) = take_screenshot screen_png s in
      if \<not> ok then (Exit Screenshot_failed, s1)
      else
        (case find_element cv (files s1) ''closepic.png'' screen_png default_threshold of
           Inl e \<Rightarrow> (Exit (Uncaught e), s1)
         | Inr (Some coord) \<Rightarrow>
             (Next, sleep 1 (tap_element ClosePhoto (fst coord) (snd coord) s1))
         | Inr None \<Rightarrow>
             (case find_element cv (files s1) ''add_your_comment.png'' screen_png
                     default_threshold of
                Inl e \<Rightarrow> (Exit (Uncaught e), s1)
              | Inr (Some coord) \<Rightarrow>
                  (case find_all_elements cv (files s1) ''download.png'' screen_png
                          default_threshold of
                     Inl e \<Rightarrow> (Exit (Uncaught e), s1)
                   | Inr coords \<Rightarrow> (Exit Entry_end, tap_downloads dry_run coords s1))
              | Inr None \<Rightarrow>
                  (case find_all_elements cv (files s1) ''download.png'' screen_png
                          default_threshold of
                     Inl e \<Rightarrow> (Exit (Uncaught e), s1)
                   | Inr [] \<Rightarrow> (Next, scroll FallbackScroll 500 2200 500 495 1000 s1)
                   | Inr (c # cs) \<Rightarrow>
                       (Next,
                        scroll_down_one_picture c
                          (if \<not> dry_run
                           then sleep 1 (tap_element Download (fst c) (snd c) s1)
                           else s1))))))"

fun entry_loop :: "nat \<Rightarrow> bool \<Rightarrow> ('b, 'i) cv2 \<Rightarrow> 'b world \<Rightarrow> entry_exit \<times> 'b world" where
  "entry_loop 0 dry_run cv s = (Budget_exhausted, s)"
| "entry_loop (Suc n) dry_run cv s =
     (case entry_iter dry_run cv s of
        (Exit r, s') \<Rightarrow> (r, s')
      | (Next, s') \<Rightarrow> entry_loop n dry_run cv s')"

text \<open>
  The loop \<^verbatim>\<open>for _ in range(5)\<close> that looks for the back button; the result is the
  exception that ended it, if any.
\<close>

fun back_loop :: "nat \<Rightarrow> ('b, 'i) cv2 \<Rightarrow> 'b world \<Rightarrow> error option \<times> 'b world" where
  "back_loop 0 cv s = (None, s)"
| "back_loop (Suc n) cv s =
     (let (ok, s1) = take_screenshot screen_png s in
      if \<not> ok then (None, s1)
      else
        (let s2 = sleep 1 s1 in
         case find_element cv (files s2) ''back.png'' screen_png default_threshold of
           Inl e \<Rightarrow> (Some e, s2)
         | Inr (Some coord) \<Rightarrow> (None, sleep 1 (tap_element GoBack (fst coord) (snd coord) s2))
         | Inr None \<Rightarrow> back_loop n cv s2))"

text \<open>\<^verbatim>\<open>download_all_photos_from_entry()\<close>: both loops, one after the other.\<close>

definition download_all_photos_from_entry ::
  "bool \<Rightarrow> ('b, 'i) cv2 \<Rightarrow> 'b world \<Rightarrow> error option \<times> 'b world" where
  "download_all_photos_from_entry dry_run cv s =
     (case entry_loop 100 dry_run cv s of
        (Uncaught e, s1) \<Rightarrow> (Some e, s1)
      | (_, s1) \<Rightarrow> back_loop 5 cv s1)"

section \<open>The main loop\<close>

text \<open>
  How the loop \<^verbatim>\<open>for _ in range(10000)\<close> of the main program ends: the \<^verbatim>\<open>break\<close>
  at the load-more button, the \<^verbatim>\<open>break\<close> after "No right arrows found.", the range used
  up, or an exception nothing catches.
\<close>

datatype walk_exit = List_end | No_progress | Ceiling | Walk_uncaught error

text \<open>The second half of an iteration: "Tap one photo entry."\<close>

definition tap_one_entry :: "bool \<Rightarrow> ('b, 'i) cv2 \<Rightarrow> 'b world \<Rightarrow> walk_exit flow \<times> 'b world" where
  "tap_one_entry dry_run cv s =
     (let (ok, s1) = take_screenshot screen_png s in
      if \<not> ok then (Next, s1)
      else
        (case find_all_elements cv (files s1) ''right.png'' screen_png default_threshold of
           Inl e \<Rightarrow> (Exit (Walk_uncaught e), s1)
         | Inr [] \<Rightarrow> (Exit No_progress, s1)
         | Inr (c # cs) \<Rightarrow>
             (case download_all_photos_from_entry dry_run cv
                     (sleep 1 (tap_element OpenEntry (fst c) (snd c) s1)) of
                (Some e, s2) \<Rightarrow> (Exit (Walk_uncaught e), s2)
              | (None, s2) \<Rightarrow> (Next, scroll_down_one_entry c s2))))"

text \<open>One iteration: "Have we reached the end?", then the second half.\<close>

definition walk_iter :: "bool \<Rightarrow> ('b, 'i) cv2 \<Rightarrow> 'b world \<Rightarrow> walk_exit flow \<times> 'b world" where
  "walk_iter dry_run cv s =
     (let (ok, s1) = take_screenshot screen_png s in
      if \<not> ok then tap_one_entry dry_run cv s1
      else
        (case find_element cv (files s1) ''loadmore.png'' screen_png default_threshold of
           Inl e \<Rightarrow> (Exit (Walk_uncaught e), s1)
         | Inr (Some coord) \<Rightarrow> (Exit List_end, s1)
         | Inr None \<Rightarrow> tap_one_entry dry_run cv s1))"

fun walk_loop :: "nat \<Rightarrow> bool \<Rightarrow> ('b, 'i) cv2 \<Rightarrow> 'b world \<Rightarrow> walk_exit \<times> 'b world" where
  "walk_loop 0 dry_run cv s = (Ceiling, s)"
| "walk_loop (Suc n) dry_run cv s =
     (case walk_iter dry_run cv s of
        (Exit r, s') \<Rightarrow> (r, s')
      | (Next, s') \<Rightarrow> walk_loop n dry_run cv s')"

text \<open>The main program, after the command line is parsed into \<open>dry_run\<close>.\<close>

definition main :: "bool \<Rightarrow> ('b, 'i) cv2 \<Rightarrow> 'b world \<Rightarrow> walk_exit \<times> 'b world" where
  "main dry_run cv s = walk_loop 10000 dry_run cv s"

section \<open>Reading a trace\<close>

text \<open>
  What a log entry is: a tap on the back button, a capture.
\<close>

fun is_back_tap :: "event \<Rightarrow> bool" where
  "is_back_tap (Tap st x y) = (st = GoBack)"
| "is_back_tap e = False"

fun is_screencap :: "event \<Rightarrow> bool" where
  "is_screencap (Screencap ok) = True"
| "is_screencap e = False"

text \<open>
  A tap sent to start a download; a gesture sent for any other purpose; and two worlds
  that differ at most in what is not such a gesture: the same script of captures, the same
  number of captures made, the same files, the same navigation gestures in the same order.
\<close>

fun is_download_tap :: "event \<Rightarrow> bool" where
  "is_download_tap (Tap st x y) = (st = Download)"
| "is_download_tap e = False"

fun navigation :: "event \<Rightarrow> bool" where
  "navigation (Tap st x y) = (st \<noteq> Download)"
| "navigation (Swipe st start_x start_y end_x end_y duration) = True"
| "navigation e = False"

definition same_navigation :: "'b world \<Rightarrow> 'b world \<Rightarrow> bool" where
  "same_navigation s1 s2 =
     (captures s1 = captures s2 \<and> clock s1 = clock s2 \<and> files s1 = files s2 \<and>
      filter navigation (trace s1) = filter navigation (trace s2))"

text \<open>
  The template files the program names, and the runs in which every capture succeeds and
  no query for any of them, with the source's default threshold, finds a match.
\<close>

definition glyphs :: "string list" where
  "glyphs = [''closepic.png'', ''add_your_comment.png'', ''download.png'', ''back.png'',
             ''loadmore.png'', ''right.png'']"

definition no_glyph_ever :: "('b, 'i) cv2 \<Rightarrow> 'b world \<Rightarrow> bool" where
  "no_glyph_ever cv s =
     (\<forall>n. fst (captures s n) \<and>
          (\<forall>g \<in> set glyphs.
             find_element cv ((files s)(screen_png \<mapsto> snd (captures s n))) g screen_png
               default_threshold = Inr None \<and>
             find_all_elements cv ((files s)(screen_png \<mapsto> snd (captures s n))) g screen_png
               default_threshold = Inr []))"

text \<open>
  What OpenCV documents of \<^verbatim>\<open>groupRectangles\<close>: a cluster with no more rectangles
  than \<open>groupThreshold\<close> is rejected. With the threshold 1 the source passes, a list of
  one rectangle is one such cluster, and no rectangle comes back.
\<close>

definition rejects_lone_rectangle :: "('b, 'i) cv2 \<Rightarrow> bool" where
  "rejects_lone_rectangle cv = (\<forall>r eps. fst (groupRectangles cv [r] 1 eps) = [])"

section \<open>Concrete inputs\<close>

text \<open>
  Stand-ins for the library, used where a theorem is applied to a concrete input; the
  theorems themselves hold for every choice of the library's four functions.
  \<open>table_cv hw res\<close> decodes every file, gives every image the shape \<open>hw\<close> and every
  pair of images the score matrix \<open>res\<close>; its \<open>groupRectangles\<close> returns each rectangle
  with weight 1, which is simpler than OpenCV's clustering.
\<close>

definition table_cv :: "nat \<times> nat \<Rightarrow> scores \<Rightarrow> (nat, nat) cv2" where
  "table_cv hw res =
     \<lparr>imread = Some, shape = (\<lambda>i. hw), matchTemplate = (\<lambda>img t. Inr res),
      groupRectangles = (\<lambda>rects gt eps. (rects, map (\<lambda>r. 1) rects))\<rparr>"

definition two_files :: "string \<Rightarrow> nat option" where
  "two_files = [''download.png'' \<mapsto> 1, ''screen.png'' \<mapsto> 2]"

text \<open>
  \<open>lone_cv\<close> is \<open>table_cv\<close> with a \<open>groupRectangles\<close> that returns nothing when it is
  given no more rectangles than the threshold, as OpenCV does.
\<close>

definition lone_cv :: "nat \<times> nat \<Rightarrow> scores \<Rightarrow> (nat, nat) cv2" where
  "lone_cv hw res =
     \<lparr>imread = Some, shape = (\<lambda>i. hw), matchTemplate = (\<lambda>img t. Inr res),
      groupRectangles =
        (\<lambda>rects gt eps. if length rects \<le> gt then ([], []) else (rects, map (\<lambda>r. 1) rects))\<rparr>"

text \<open>
  \<open>toy_cv\<close> works on images given as rows of pixel values. A template has one row; its
  score at a location is 1 where the row of the frame continues with exactly the
  template's pixels and 0 elsewhere; a template wider than a row of the frame raises the
  library's exception. An empty file does not decode. As in \<open>table_cv\<close>,
  \<open>groupRectangles\<close> returns each rectangle with weight 1.
\<close>

definition toy_shape :: "nat list list \<Rightarrow> nat \<times> nat" where
  "toy_shape i = (length i, (case i of [] \<Rightarrow> 0 | row # rows \<Rightarrow> length row))"

definition toy_row_scores :: "nat list \<Rightarrow> nat list \<Rightarrow> real list" where
  "toy_row_scores t row =
     map (\<lambda>x. if take (length t) (drop x row) = t then 1 else 0)
       [0..<Suc (length row - length t)]"

definition toy_match :: "nat list list \<Rightarrow> nat list list \<Rightarrow> error + scores" where
  "toy_match img template =
     (case template of
        [t] \<Rightarrow> if list_ex (\<lambda>row. length row < length t) img then Inl CvError
               else Inr (map (toy_row_scores t) img)
      | _ \<Rightarrow> Inl CvError)"

definition toy_cv :: "(nat list list, nat list list) cv2" where
  "toy_cv =
     \<lparr>imread = (\<lambda>b. if b = [] then None else Some b), shape = toy_shape,
      matchTemplate = toy_match,
      groupRectangles = (\<lambda>rects gt eps. (rects, map (\<lambda>r. 1) rects))\<rparr>"

text \<open>
  A template store with one glyph per file, a world that starts with that store, an
  empty log and a script of captures, and four frames.
\<close>

definition toy_templates :: "string \<Rightarrow> nat list list option" where
  "toy_templates =
     [''closepic.png'' \<mapsto> [[1, 7, 1]], ''add_your_comment.png'' \<mapsto> [[2, 7, 2]],
      ''download.png'' \<mapsto> [[3, 7, 3]], ''back.png'' \<mapsto> [[4, 7, 4]],
      ''loadmore.png'' \<mapsto> [[5, 7, 5]], ''right.png'' \<mapsto> [[6, 7, 6]]]"

definition toy_world :: "(nat \<Rightarrow> bool \<times> nat list list) \<Rightarrow> nat list list world" where
  "toy_world script = \<lparr>captures = script, clock = 0, files = toy_templates, trace = []\<rparr>"

definition frame_two_downloads :: "nat list list" where
  "frame_two_downloads =
     [[0, 0, 0, 0, 0, 0],
      [0, 3, 7, 3, 0, 0],
      [0, 0, 0, 0, 0, 0],
      [0, 0, 3, 7, 3, 0]]"

definition frame_entry_end :: "nat list list" where
  "frame_entry_end =
     [[0, 3, 7, 3, 0, 0],
      [0, 0, 0, 3, 7, 3],
      [2, 7, 2, 0, 0, 0]]"

definition frame_blank :: "nat list list" where
  "frame_blank = [[0, 0, 0, 0, 0, 0], [0, 0, 0, 0, 0, 0]]"

definition frame_back :: "nat list list" where
  "frame_back = [[0, 4, 7, 4, 0]]"

text \<open>
  A run over a list with one entry: the list with a right arrow (captured twice), the
  entry showing two download buttons, the end of the entry with two more, the back button,
  and the list again, now at its load-more button.
\<close>

definition frame_list :: "nat list list" where
  "frame_list = [[0, 0, 0, 0, 0, 0], [0, 0, 6, 7, 6, 0]]"

definition frame_list_end :: "nat list list" where
  "frame_list_end = [[5, 7, 5, 0, 0, 0]]"

definition one_entry_script :: "nat \<Rightarrow> bool \<times> nat list list" where
  "one_entry_script n =
     (True,
      if n < 2 then frame_list
      else if n = 2 then frame_two_downloads
      else if n = 3 then frame_entry_end
      else if n = 4 then frame_back
      else frame_list_end)"

text \<open>
  Two scripts with a failed capture: the run over the one-entry list whose very first
  capture fails, and a run in which only the second capture fails.
\<close>

definition capture_gap_script :: "nat \<Rightarrow> bool \<times> nat list list" where
  "capture_gap_script n =
     (0 < n,
      if n < 2 then frame_list
      else if n = 2 then frame_entry_end
      else if n = 3 then frame_back
      else frame_list_end)"

definition second_capture_fails :: "nat \<Rightarrow> bool \<times> nat list list" where
  "second_capture_fails n = (n \<noteq> 1, frame_list)"

section \<open>Leaving a loop\<close>

lemma tap_downloads_trace:
  "tap_downloads dry_run coords s =
     s\<lparr>trace := trace s @
          (if dry_run then []
           else concat (map (\<lambda>c. [Tap Download (fst c) (snd c), Sleep 1]) coords))\<rparr>"
  by (induction coords arbitrary: s) (simp_all add: sleep_def tap_element_def)

lemma walk_loop_Exit:
  "walk_iter dry_run cv s = (Exit r, s') \<Longrightarrow> 0 < n \<Longrightarrow> walk_loop n dry_run cv s = (r, s')"
  by (cases n) simp_all

lemma entry_loop_Exit:
  "entry_iter dry_run cv s = (Exit r, s') \<Longrightarrow> 0 < n \<Longrightarrow> entry_loop n dry_run cv s = (r, s')"
  by (cases n) simp_all

section \<open>The largest entry of a score matrix\<close>

lemma scan_max_in: "scan_max b cs \<in> set (b # cs)"
  by (induction cs arbitrary: b) auto

lemma scan_max_init: "fst b \<le> fst (scan_max b cs)"
proof (induction cs arbitrary: b)
  case Nil
  then show ?case by simp
next
  case (Cons a cs)
  have "fst b \<le> fst (if fst b < fst a then a else b)" by simp
  also have "\<dots> \<le> fst (scan_max (if fst b < fst a then a else b) cs)" by (rule Cons.IH)
  finally show ?case by simp
qed

lemma scan_max_ge: "c \<in> set cs \<Longrightarrow> fst c \<le> fst (scan_max b cs)"
proof (induction cs arbitrary: b)
  case Nil
  then show ?case by simp
next
  case (Cons a cs)
  show ?case
  proof (cases "c = a")
    case True
    have "fst a \<le> fst (if fst b < fst a then a else b)" by simp
    also have "\<dots> \<le> fst (scan_max (if fst b < fst a then a else b) cs)" by (rule scan_max_init)
    finally show ?thesis using True by simp
  next
    case False
    then have "c \<in> set cs" using Cons.prems by simp
    then show ?thesis using Cons.IH by simp
  qed
qed

lemma scan_max_Max: "fst (scan_max b cs) = Max (fst ` set (b # cs))"
proof (rule sym, rule Max_eqI)
  show "finite (fst ` set (b # cs))" by simp
  show "\<And>y. y \<in> fst ` set (b # cs) \<Longrightarrow> y \<le> fst (scan_max b cs)"
    using scan_max_ge [of _ cs b] scan_max_init [of b cs] by auto
  show "fst (scan_max b cs) \<in> fst ` set (b # cs)"
    using scan_max_in [of b cs] by blast
qed

lemma set_row_cells:
  "set (row_cells y row) = {(row ! x, (int x, int y)) | x. x < length row}"
  by (auto simp: row_cells_def in_set_enumerate_eq image_iff)

lemma set_enumerate0: "set (enumerate 0 xs) = (\<lambda>i. (i, xs ! i)) ` {..<length xs}"
  by (auto simp: in_set_enumerate_eq image_iff prod_eq_iff)

lemma set_cells:
  "set (cells res) = {(res ! y ! x, (int x, int y)) | x y. y < length res \<and> x < length (res ! y)}"
proof -
  have "set (cells res) = (\<Union>q \<in> set (enumerate 0 res). set (row_cells (fst q) (snd q)))"
    by (simp add: cells_def case_prod_beta)
  also have "\<dots> = (\<Union>y \<in> {..<length res}. set (row_cells y (res ! y)))"
    by (simp add: set_enumerate0)
  finally show ?thesis by (auto simp: set_row_cells)
qed

lemma set_concat_nth:
  "set (concat res) = {res ! y ! x | x y. y < length res \<and> x < length (res ! y)}"
proof -
  have "set (concat res) = set (concat (map ((!) res) [0..<length res]))"
    by (simp only: map_nth)
  also have "\<dots> = (\<Union>y \<in> {..<length res}. set (res ! y))"
    by (simp add: atLeast0LessThan)
  also have "\<dots> = {res ! y ! x | x y. y < length res \<and> x < length (res ! y)}"
    by (fastforce simp: in_set_conv_nth)
  finally show ?thesis .
qed

lemma fst_set_cells: "fst ` set (cells res) = set (concat res)"
  unfolding set_concat_nth set_cells by force

lemma minMaxLoc_argmax:
  assumes "concat res \<noteq> []" and "minMaxLoc res = (min_val, max_val, min_loc, max_loc)"
  shows "max_val = Max (set (concat res)) \<and>
         (\<exists>x y. y < length res \<and> x < length (res ! y) \<and> res ! y ! x = max_val \<and>
                max_loc = (int x, int y))"
proof -
  from assms(1) have "set (cells res) \<noteq> {}"
    using fst_set_cells [of res] by (metis image_is_empty set_empty)
  then obtain c cs where ccs: "cells res = c # cs"
    by (cases "cells res") auto
  with assms(2) have mv: "max_val = fst (scan_max c cs)" and ml: "max_loc = snd (scan_max c cs)"
    by (simp_all add: minMaxLoc_def)
  have "max_val = Max (fst ` set (cells res))"
    using mv ccs by (simp only: scan_max_Max)
  then have 1: "max_val = Max (set (concat res))"
    by (simp only: fst_set_cells)
  have "scan_max c cs \<in> set (cells res)"
    using scan_max_in [of c cs] ccs by simp
  then obtain x y where "y < length res" "x < length (res ! y)"
      "scan_max c cs = (res ! y ! x, (int x, int y))"
    unfolding set_cells by blast
  then have "y < length res \<and> x < length (res ! y) \<and> res ! y ! x = max_val \<and>
                max_loc = (int x, int y)"
    using mv ml by simp
  with 1 show ?thesis by blast
qed

section \<open>Claims about template matching\<close>

text \<open>
  C5. When both files exist and decode and \<^verbatim>\<open>cv2.matchTemplate\<close> returns a matrix with at
  least one entry, \<open>find_element\<close> compares the largest entry with the threshold: at or
  above it, the result is the centre \<open>(x + w // 2, y + h // 2)\<close> of the template placed at
  a location \<open>(x, y)\<close> that holds the largest entry; below it, the result is \<open>None\<close>.
\<close>

theorem find_element_highest_confidence:
  assumes "fs template_path = Some template_bytes"
    and "fs screen_path = Some screen_bytes"
    and "imread cv screen_bytes = Some img_rgb"
    and "imread cv template_bytes = Some template"
    and "shape cv template = (h, w)"
    and "matchTemplate cv img_rgb template = Inr res"
    and "concat res \<noteq> []"
  shows "(threshold \<le> Max (set (concat res)) \<longrightarrow>
           (\<exists>x y. y < length res \<and> x < length (res ! y) \<and>
                  res ! y ! x = Max (set (concat res)) \<and>
                  find_element cv fs template_path screen_path threshold =
                    Inr (Some (int x + int w div 2, int y + int h div 2)))) \<and>
         (Max (set (concat res)) < threshold \<longrightarrow>
            find_element cv fs template_path screen_path threshold = Inr None)"
proof -
  obtain min_val max_val min_loc max_loc
    where mm: "minMaxLoc res = (min_val, max_val, min_loc, max_loc)"
    by (cases "minMaxLoc res") auto
  from minMaxLoc_argmax [OF assms(7) mm]
  obtain x y where mv: "max_val = Max (set (concat res))"
    and xy: "y < length res" "x < length (res ! y)" "res ! y ! x = max_val"
    and ml: "max_loc = (int x, int y)"
    by blast
  have fe: "find_element cv fs template_path screen_path threshold =
          (if threshold \<le> max_val
           then Inr (Some (int x + int w div 2, int y + int h div 2)) else Inr None)"
    using assms(1-6) mm ml by (simp add: find_element_def)
  show ?thesis
  proof (intro conjI impI)
    assume "threshold \<le> Max (set (concat res))"
    then show "\<exists>x y. y < length res \<and> x < length (res ! y) \<and>
                  res ! y ! x = Max (set (concat res)) \<and>
                  find_element cv fs template_path screen_path threshold =
                    Inr (Some (int x + int w div 2, int y + int h div 2))"
      using fe mv xy by auto
  next
    assume "Max (set (concat res)) < threshold"
    then show "find_element cv fs template_path screen_path threshold = Inr None"
      using fe mv by simp
  qed
qed

theorem find_element_highest_confidence_witness:
  "\<exists>x y. y < length [[1/10, 9/10], [95/100, 3/10::real]] \<and> x < length ([[1/10, 9/10], [95/100, 3/10::real]] ! y) \<and>
      [[1/10, 9/10], [95/100, 3/10]] ! y ! x = Max (set (concat [[1/10, 9/10], [95/100, 3/10::real]])) \<and>
      find_element (table_cv (4, 6) [[1/10, 9/10], [95/100, 3/10]]) two_files
         ''download.png'' ''screen.png'' (8 / 10) = Inr (Some (int x + int 6 div 2, int y + int 4 div 2))"
  using find_element_highest_confidence [of two_files "''download.png''" 1 "''screen.png''" 2
     "table_cv (4, 6) [[1/10, 9/10], [95/100, 3/10]]" 2 1 4 6 "[[1/10, 9/10], [95/100, 3/10]]" "8/10"]
  by (simp add: table_cv_def two_files_def)

lemma set_where_ge:
  "set (where_ge res threshold) =
     {(int x, int y) | x y. y < length res \<and> x < length (res ! y) \<and> threshold \<le> res ! y ! x}"
  unfolding where_ge_def by (auto simp: set_cells image_iff)

lemma where_ge_score:
  assumes "p \<in> set (where_ge res threshold)"
  shows "concat res \<noteq> [] \<and> threshold \<le> Max (set (concat res))"
proof -
  from assms obtain x y where xy: "y < length res" "x < length (res ! y)"
      "threshold \<le> res ! y ! x"
    unfolding set_where_ge by blast
  then have mem: "res ! y ! x \<in> set (concat res)"
    unfolding set_concat_nth by blast
  have ne: "concat res \<noteq> []"
  proof
    assume e: "concat res = []"
    from mem show False unfolding e by simp
  qed
  have "res ! y ! x \<le> Max (set (concat res))"
    using mem by (intro Max_ge) simp_all
  then have "threshold \<le> Max (set (concat res))"
    using xy(3) by (rule order_trans [rotated])
  with ne show ?thesis by (rule conjI)
qed

text \<open>
  C4 fails on the code. When exactly one location of the score matrix is at or above the
  threshold (one instance of the template, matched at one place), \<open>find_all_elements\<close>
  hands \<^verbatim>\<open>cv2.groupRectangles(rects, 1, 0.2)\<close> a single rectangle, the library rejects
  it, and the result is the empty list, not one match. On the same files and threshold
  \<open>find_element\<close> returns the centre of that instance.
\<close>

theorem lone_match_is_dropped:
  assumes "fs template_path = Some template_bytes"
    and "fs screen_path = Some screen_bytes"
    and "imread cv screen_bytes = Some img_rgb"
    and "imread cv template_bytes = Some template"
    and "shape cv template = (h, w)"
    and "matchTemplate cv img_rgb template = Inr res"
    and "where_ge res threshold = [p]"
    and "rejects_lone_rectangle cv"
  shows "find_all_elements cv fs template_path screen_path threshold = Inr [] \<and>
         find_element cv fs template_path screen_path threshold =
           Inr (Some (fst p + int w div 2, snd p + int h div 2))"
proof -
  have "fst (groupRectangles cv [(fst p, snd p, int w, int h)] 1 (2 / 10)) = []"
    using assms(8) by (simp add: rejects_lone_rectangle_def)
  then have all: "find_all_elements cv fs template_path screen_path threshold = Inr []"
    using assms(1-7) by (simp add: find_all_elements_def case_prod_beta)
  have pin: "p \<in> set (where_ge res threshold)"
    using assms(7) by simp
  from where_ge_score [OF pin]
  have ne: "concat res \<noteq> []" and big: "threshold \<le> Max (set (concat res))"
    by simp_all
  obtain min_val max_val min_loc max_loc
    where mm: "minMaxLoc res = (min_val, max_val, min_loc, max_loc)"
    by (cases "minMaxLoc res") auto
  from minMaxLoc_argmax [OF ne mm]
  obtain x y where mv: "max_val = Max (set (concat res))"
    and xy: "y < length res" "x < length (res ! y)" "res ! y ! x = max_val"
    and ml: "max_loc = (int x, int y)"
    by blast
  have "(int x, int y) \<in> set (where_ge res threshold)"
    unfolding set_where_ge using xy mv big by auto
  then have "max_loc = p"
    using assms(7) ml by simp
  then have "find_element cv fs template_path screen_path threshold =
           Inr (Some (fst p + int w div 2, snd p + int h div 2))"
    using assms(1-6) mm mv big by (simp add: find_element_def)
  with all show ?thesis by simp
qed

theorem lone_match_is_dropped_witness:
  "where_ge [[1 / 10, 3 / 10], [1, 2 / 10]] (8 / 10) = [(0, 1)] \<and>
   find_all_elements (lone_cv (4, 6) [[1 / 10, 3 / 10], [1, 2 / 10]]) two_files
     ''download.png'' ''screen.png'' (8 / 10) = Inr [] \<and>
   find_element (lone_cv (4, 6) [[1 / 10, 3 / 10], [1, 2 / 10]]) two_files
     ''download.png'' ''screen.png'' (8 / 10) = Inr (Some (3, 3))"
proof -
  have w: "where_ge [[1 / 10, 3 / 10], [1, 2 / 10]] (8 / 10) = [(0, 1)]"
    by code_simp
  have r: "rejects_lone_rectangle (lone_cv (4, 6) [[1 / 10, 3 / 10], [1, 2 / 10]])"
    by (simp add: rejects_lone_rectangle_def lone_cv_def)
  from lone_match_is_dropped [of two_files "''download.png''" 1 "''screen.png''" 2
      "lone_cv (4, 6) [[1 / 10, 3 / 10], [1, 2 / 10]]" 2 1 4 6
      "[[1 / 10, 3 / 10], [1, 2 / 10]]" "8 / 10" "(0, 1)", OF _ _ _ _ _ _ w r]
  show ?thesis
    using w by (simp add: lone_cv_def two_files_def)
qed

text \<open>
  C8. Both matching operations read nothing but the screenshot file, the template file
  and the threshold: at any two moments of a run (whatever was captured, tapped or logged
  in between) at which the two files hold the same bytes, the same query returns the same
  matches in the same order.
\<close>

theorem observation_is_a_function_of_the_stored_frame:
  assumes "files s1 screen_path = files s2 screen_path"
    and "files s1 template_path = files s2 template_path"
  shows "find_element cv (files s1) template_path screen_path threshold =
           find_element cv (files s2) template_path screen_path threshold \<and>
         find_all_elements cv (files s1) template_path screen_path threshold =
           find_all_elements cv (files s2) template_path screen_path threshold"
  unfolding find_element_def find_all_elements_def assms by simp

theorem observation_is_a_function_of_the_stored_frame_witness:
  "find_all_elements toy_cv
     (files (scroll PictureScroll 500 1 500 495 1000
        (snd (take_screenshot screen_png (toy_world (\<lambda>n. (True, frame_two_downloads)))))))
     ''download.png'' screen_png default_threshold =
   find_all_elements toy_cv
     (files (snd (take_screenshot screen_png (toy_world (\<lambda>n. (True, frame_two_downloads))))))
     ''download.png'' screen_png default_threshold \<and>
   find_all_elements toy_cv
     (files (snd (take_screenshot screen_png (toy_world (\<lambda>n. (True, frame_two_downloads))))))
     ''download.png'' screen_png default_threshold = Inr [(2, 1), (3, 3)]"
proof
  show "find_all_elements toy_cv
     (files (scroll PictureScroll 500 1 500 495 1000
        (snd (take_screenshot screen_png (toy_world (\<lambda>n. (True, frame_two_downloads)))))))
     ''download.png'' screen_png default_threshold =
   find_all_elements toy_cv
     (files (snd (take_screenshot screen_png (toy_world (\<lambda>n. (True, frame_two_downloads))))))
     ''download.png'' screen_png default_threshold"
    using observation_is_a_function_of_the_stored_frame
      [of "scroll PictureScroll 500 1 500 495 1000
            (snd (take_screenshot screen_png (toy_world (\<lambda>n. (True, frame_two_downloads)))))"
          screen_png
          "snd (take_screenshot screen_png (toy_world (\<lambda>n. (True, frame_two_downloads))))"
          "''download.png''" toy_cv default_threshold]
    by (simp add: scroll_def)
  show "find_all_elements toy_cv
     (files (snd (take_screenshot screen_png (toy_world (\<lambda>n. (True, frame_two_downloads))))))
     ''download.png'' screen_png default_threshold = Inr [(2, 1), (3, 3)]"
    by code_simp
qed

text \<open>
  C7, as the code has it. A missing template file is found at run time, by each call of
  \<open>find_element\<close> and \<open>find_all_elements\<close>, and the call then reports no match
  (\<open>None\<close>, the empty list).
\<close>

theorem missing_template_is_no_match:
  assumes "fs template_path = None"
  shows "find_element cv fs template_path screen_path threshold = Inr None \<and>
         find_all_elements cv fs template_path screen_path threshold = Inr []"
  using assms by (simp add: find_element_def find_all_elements_def)

theorem missing_template_is_no_match_witness:
  "find_element toy_cv Map.empty ''right.png'' screen_png default_threshold = Inr None \<and>
   find_all_elements toy_cv Map.empty ''right.png'' screen_png default_threshold = Inr []"
  using missing_template_is_no_match [of Map.empty "''right.png''" toy_cv screen_png default_threshold]
  by simp

text \<open>
  C7, as the spec states it, fails: with no template file at all the program still
  enters its main loop, captures the screen twice and stops for lack of a right arrow.
\<close>

theorem missing_template_counterexample:
  "files \<lparr>captures = (\<lambda>n. (True, frame_two_downloads)), clock = 0, files = Map.empty,
          trace = []\<rparr> ''loadmore.png'' = None \<and>
   main False toy_cv
     \<lparr>captures = (\<lambda>n. (True, frame_two_downloads)), clock = 0, files = Map.empty, trace = []\<rparr> =
    (No_progress, 
     \<lparr>captures = (\<lambda>n. (True, frame_two_downloads)), clock = 2,
      files = [screen_png \<mapsto> frame_two_downloads], 
      trace = [Screencap True, Screencap True]\<rparr>)"
proof -
  have "walk_iter False toy_cv
     \<lparr>captures = (\<lambda>n. (True, frame_two_downloads)), clock = 0, files = Map.empty, trace = []\<rparr> =
    (Exit No_progress,
     \<lparr>captures = (\<lambda>n. (True, frame_two_downloads)), clock = 2,
      files = [screen_png \<mapsto> frame_two_downloads],
      trace = [Screencap True, Screencap True]\<rparr>)"
    by (simp add: walk_iter_def tap_one_entry_def take_screenshot_def
        find_element_def find_all_elements_def screen_png_def)
  then show ?thesis
    by (simp add: main_def walk_loop_Exit)
qed

section \<open>Claims about one iteration of the per-entry loop\<close>

text \<open>
  C3. In an iteration whose capture succeeds, with no close-photo match and with an
  "add your comment" match, the program taps every download match once, in the order
  found, each tap followed by a pause of one second (nothing at all in a dry run), and the
  per-entry loop ends there with the exit \<open>Entry_end\<close>, whatever is left of its range.
\<close>

theorem entry_end_iteration:
  assumes "take_screenshot screen_png s = (True, s1)"
    and "find_element cv (files s1) ''closepic.png'' screen_png default_threshold = Inr None"
    and "find_element cv (files s1) ''add_your_comment.png'' screen_png default_threshold =
           Inr (Some coord)"
    and "find_all_elements cv (files s1) ''download.png'' screen_png default_threshold =
           Inr coords"
  shows "entry_iter dry_run cv s =
           (Exit Entry_end,
            s1\<lparr>trace := trace s1 @
                  (if dry_run then []
                   else concat (map (\<lambda>c. [Tap Download (fst c) (snd c), Sleep 1]) coords))\<rparr>) \<and>
         entry_loop (Suc n) dry_run cv s =
           (Entry_end,
            s1\<lparr>trace := trace s1 @
                  (if dry_run then []
                   else concat (map (\<lambda>c. [Tap Download (fst c) (snd c), Sleep 1]) coords))\<rparr>)"
proof -
  have "entry_iter dry_run cv s = (Exit Entry_end, tap_downloads dry_run coords s1)"
    using assms by (simp add: entry_iter_def)
  then show ?thesis
    by (simp add: tap_downloads_trace)
qed

theorem entry_end_iteration_witness:
  "entry_loop 100 False toy_cv (toy_world (\<lambda>n. (True, frame_entry_end))) =
     (Entry_end,
      \<lparr>captures = (\<lambda>n. (True, frame_entry_end)), clock = 1,
       files = toy_templates(screen_png \<mapsto> frame_entry_end),
       trace = [Screencap True, Tap Download 2 0, Sleep 1, Tap Download 4 1, Sleep 1]\<rparr>)"
proof -
  let ?w = "toy_world (\<lambda>n. (True, frame_entry_end))"
  let ?s1 = "\<lparr>captures = (\<lambda>n. (True, frame_entry_end)), clock = 1,
       files = toy_templates(screen_png \<mapsto> frame_entry_end),
       trace = [Screencap True]\<rparr>"
  have h1: "take_screenshot screen_png ?w = (True, ?s1)"
    by (simp add: take_screenshot_def toy_world_def)
  have h2: "find_element toy_cv (files ?s1) ''closepic.png'' screen_png default_threshold
              = Inr None"
    by code_simp
  have h3: "find_element toy_cv (files ?s1) ''add_your_comment.png'' screen_png
              default_threshold = Inr (Some (1, 2))"
    by code_simp
  have h4: "find_all_elements toy_cv (files ?s1) ''download.png'' screen_png
              default_threshold = Inr [(2, 0), (4, 1)]"
    by code_simp
  from entry_end_iteration [OF h1 h2 h3 h4, of False 99] show ?thesis
    by simp
qed

text \<open>
  C9. In an iteration whose capture succeeds, with neither a close-photo nor an
  "add your comment" match: if there is a download match, the first one is tapped (not in
  a dry run) and the program swipes from \<open>(500, y)\<close>, \<open>y\<close> being that match's vertical
  position, to \<open>(500, 495)\<close>; if there is none, it swipes from \<open>(500, 2200)\<close> to
  \<open>(500, 495)\<close>. In both cases the loop goes on with the next iteration.
\<close>

theorem scanning_iteration:
  assumes "take_screenshot screen_png s = (True, s1)"
    and "find_element cv (files s1) ''closepic.png'' screen_png default_threshold = Inr None"
    and "find_element cv (files s1) ''add_your_comment.png'' screen_png default_threshold =
           Inr None"
    and "find_all_elements cv (files s1) ''download.png'' screen_png default_threshold =
           Inr coords"
  shows "entry_iter dry_run cv s =
           (Next,
            s1\<lparr>trace := trace s1 @
                  (case coords of
                     [] \<Rightarrow> [Swipe FallbackScroll 500 2200 500 495 1000]
                   | c # cs \<Rightarrow>
                       (if dry_run then [] else [Tap Download (fst c) (snd c), Sleep 1]) @
                       [Swipe PictureScroll 500 (snd c) 500 495 1000])\<rparr>) \<and>
         entry_loop (Suc n) dry_run cv s =
           entry_loop n dry_run cv (snd (entry_iter dry_run cv s))"
proof -
  have "entry_iter dry_run cv s =
           (Next,
            s1\<lparr>trace := trace s1 @
                  (case coords of
                     [] \<Rightarrow> [Swipe FallbackScroll 500 2200 500 495 1000]
                   | c # cs \<Rightarrow>
                       (if dry_run then [] else [Tap Download (fst c) (snd c), Sleep 1]) @
                       [Swipe PictureScroll 500 (snd c) 500 495 1000])\<rparr>)"
    using assms
    by (cases coords)
      (simp_all add: entry_iter_def scroll_def scroll_down_one_picture_def sleep_def
        tap_element_def)
  then show ?thesis by simp
qed

theorem scanning_iteration_witness:
  "entry_iter False toy_cv (toy_world (\<lambda>n. (True, frame_two_downloads))) =
     (Next,
      \<lparr>captures = (\<lambda>n. (True, frame_two_downloads)), clock = 1,
       files = toy_templates(screen_png \<mapsto> frame_two_downloads),
       trace = [Screencap True, Tap Download 2 1, Sleep 1,
                Swipe PictureScroll 500 1 500 495 1000]\<rparr>) \<and>
   entry_iter True toy_cv (toy_world (\<lambda>n. (True, frame_blank))) =
     (Next,
      \<lparr>captures = (\<lambda>n. (True, frame_blank)), clock = 1,
       files = toy_templates(screen_png \<mapsto> frame_blank),
       trace = [Screencap True, Swipe FallbackScroll 500 2200 500 495 1000]\<rparr>)"
proof -
  let ?w = "toy_world (\<lambda>n. (True, frame_two_downloads))"
  let ?s1 = "\<lparr>captures = (\<lambda>n. (True, frame_two_downloads)), clock = 1,
       files = toy_templates(screen_png \<mapsto> frame_two_downloads),
       trace = [Screencap True]\<rparr>"
  have h1: "take_screenshot screen_png ?w = (True, ?s1)"
    by (simp add: take_screenshot_def toy_world_def)
  have h2: "find_element toy_cv (files ?s1) ''closepic.png'' screen_png default_threshold
              = Inr None"
    by code_simp
  have h3: "find_element toy_cv (files ?s1) ''add_your_comment.png'' screen_png
              default_threshold = Inr None"
    by code_simp
  have h4: "find_all_elements toy_cv (files ?s1) ''download.png'' screen_png
              default_threshold = Inr [(2, 1), (3, 3)]"
    by code_simp
  let ?v = "toy_world (\<lambda>n. (True, frame_blank))"
  let ?t1 = "\<lparr>captures = (\<lambda>n. (True, frame_blank)), clock = 1,
       files = toy_templates(screen_png \<mapsto> frame_blank),
       trace = [Screencap True]\<rparr>"
  have g1: "take_screenshot screen_png ?v = (True, ?t1)"
    by (simp add: take_screenshot_def toy_world_def)
  have g2: "find_element toy_cv (files ?t1) ''closepic.png'' screen_png default_threshold
              = Inr None"
    by code_simp
  have g3: "find_element toy_cv (files ?t1) ''add_your_comment.png'' screen_png
              default_threshold = Inr None"
    by code_simp
  have g4: "find_all_elements toy_cv (files ?t1) ''download.png'' screen_png
              default_threshold = Inr []"
    by code_simp
  from scanning_iteration [OF h1 h2 h3 h4, of False 0]
    scanning_iteration [OF g1 g2 g3 g4, of True 0]
  show ?thesis by simp
qed

section \<open>Claims about failed captures\<close>

lemma take_screenshot_failed:
  assumes "\<not> fst (captures s (clock s))"
  shows "take_screenshot p s = (False, snd (take_screenshot p s))"
  using assms by (simp add: take_screenshot_def case_prod_beta)

lemma take_screenshot_sel [simp]:
  "fst (take_screenshot p s) = fst (captures s (clock s))"
  "clock (snd (take_screenshot p s)) = Suc (clock s)"
  "captures (snd (take_screenshot p s)) = captures s"
  "trace (snd (take_screenshot p s)) = trace s @ [Screencap (fst (captures s (clock s)))]"
  "files (snd (take_screenshot p s)) = (files s)(p \<mapsto> snd (captures s (clock s)))"
  by (simp_all add: take_screenshot_def case_prod_beta)

lemma entry_iter_failed:
  assumes "\<not> fst (captures s (clock s))"
  shows "entry_iter dry_run cv s = (Exit Screenshot_failed, snd (take_screenshot screen_png s))"
  using assms by (simp add: entry_iter_def case_prod_beta)

lemma walk_iter_failed:
  assumes "\<not> fst (captures s (clock s))" and "\<not> fst (captures s (Suc (clock s)))"
  shows "walk_iter dry_run cv s =
           (Next, snd (take_screenshot screen_png (snd (take_screenshot screen_png s))))"
  using assms by (simp add: walk_iter_def tap_one_entry_def case_prod_beta)

lemma walk_loop_all_failed:
  assumes "\<forall>k. \<not> fst (captures s k)"
  shows "fst (walk_loop n dry_run cv s) = Ceiling \<and>
         clock (snd (walk_loop n dry_run cv s)) = clock s + 2 * n \<and>
         trace (snd (walk_loop n dry_run cv s)) = trace s @ replicate (2 * n) (Screencap False)"
  using assms
proof (induction n arbitrary: s)
  case 0
  then show ?case by simp
next
  case (Suc n)
  let ?s2 = "snd (take_screenshot screen_png (snd (take_screenshot screen_png s)))"
  have it: "walk_iter dry_run cv s = (Next, ?s2)"
    using Suc.prems by (simp add: walk_iter_failed)
  have "\<forall>k. \<not> fst (captures ?s2 k)"
    using Suc.prems by simp
  from Suc.IH [OF this] show ?case
    using it Suc.prems by (simp add: replicate_app_Cons_same)
qed

text \<open>
  C6, as the code has it. \<open>take_screenshot\<close> makes one capture and reports its failure
  without a retry. A failed capture ends the per-entry loop and the back-button loop at
  once (\<^verbatim>\<open>break\<close>). In the main loop a failed capture only skips the step that needed
  the image. When the first capture of an iteration fails, the load-more check is skipped
  and the iteration goes on with its second half; if the second capture then succeeds and
  shows a right arrow, the entry is opened and handled, the list is scrolled and the loop
  goes on. When the second capture fails, after a first capture that failed or that
  showed no load-more button, nothing more is done in the iteration and the loop goes on
  with the next one. When every capture fails the loop runs through its whole range of
  10000 iterations (20000 captures) and sends no gesture.
\<close>

theorem capture_failure_policy:
  "(\<not> fst (captures s (clock s)) \<longrightarrow>
      fst (take_screenshot screen_png s) = False \<and>
      clock (snd (take_screenshot screen_png s)) = Suc (clock s) \<and>
      trace (snd (take_screenshot screen_png s)) = trace s @ [Screencap False] \<and>
      entry_loop (Suc n) dry_run cv s =
        (Screenshot_failed, snd (take_screenshot screen_png s)) \<and>
      back_loop (Suc n) cv s = (None, snd (take_screenshot screen_png s)) \<and>
      tap_one_entry dry_run cv s = (Next, snd (take_screenshot screen_png s)) \<and>
      walk_iter dry_run cv s = tap_one_entry dry_run cv (snd (take_screenshot screen_png s)) \<and>
      (\<not> fst (captures s (Suc (clock s))) \<longrightarrow>
         walk_loop (Suc n) dry_run cv s =
           walk_loop n dry_run cv
             (snd (take_screenshot screen_png (snd (take_screenshot screen_png s)))))) \<and>
   (\<not> fst (captures s (clock s)) \<and> fst (captures s (Suc (clock s))) \<and>
    find_all_elements cv
      (files (snd (take_screenshot screen_png (snd (take_screenshot screen_png s)))))
      ''right.png'' screen_png default_threshold = Inr (c # cs) \<and>
    download_all_photos_from_entry dry_run cv
      (sleep 1 (tap_element OpenEntry (fst c) (snd c)
         (snd (take_screenshot screen_png (snd (take_screenshot screen_png s)))))) =
      (None, s3) \<longrightarrow>
      walk_iter dry_run cv s = (Next, scroll_down_one_entry c s3) \<and>
      walk_loop (Suc n) dry_run cv s = walk_loop n dry_run cv (scroll_down_one_entry c s3)) \<and>
   (fst (captures s (clock s)) \<and>
    find_element cv (files (snd (take_screenshot screen_png s))) ''loadmore.png'' screen_png
      default_threshold = Inr None \<and>
    \<not> fst (captures s (Suc (clock s))) \<longrightarrow>
      walk_iter dry_run cv s =
        (Next, snd (take_screenshot screen_png (snd (take_screenshot screen_png s)))) \<and>
      walk_loop (Suc n) dry_run cv s =
        walk_loop n dry_run cv
          (snd (take_screenshot screen_png (snd (take_screenshot screen_png s))))) \<and>
   ((\<forall>k. \<not> fst (captures s k)) \<longrightarrow>
      fst (main dry_run cv s) = Ceiling \<and>
      clock (snd (main dry_run cv s)) = clock s + 20000 \<and>
      trace (snd (main dry_run cv s)) = trace s @ replicate 20000 (Screencap False))"
proof (intro conjI impI)
  assume f: "\<not> fst (captures s (clock s))"
  show "fst (take_screenshot screen_png s) = False"
    using f by simp
  show "clock (snd (take_screenshot screen_png s)) = Suc (clock s)"
    by simp
  show "trace (snd (take_screenshot screen_png s)) = trace s @ [Screencap False]"
    using f by simp
  show "entry_loop (Suc n) dry_run cv s =
        (Screenshot_failed, snd (take_screenshot screen_png s))"
    using f by (simp add: entry_iter_failed)
  show "back_loop (Suc n) cv s = (None, snd (take_screenshot screen_png s))"
    using f by (simp add: case_prod_beta)
  show "tap_one_entry dry_run cv s = (Next, snd (take_screenshot screen_png s))"
    using f by (simp add: tap_one_entry_def case_prod_beta)
  show "walk_iter dry_run cv s = tap_one_entry dry_run cv (snd (take_screenshot screen_png s))"
    using f by (simp add: walk_iter_def case_prod_beta)
next
  assume "\<not> fst (captures s (clock s))" and "\<not> fst (captures s (Suc (clock s)))"
  then show "walk_loop (Suc n) dry_run cv s =
           walk_loop n dry_run cv
             (snd (take_screenshot screen_png (snd (take_screenshot screen_png s))))"
    by (simp add: walk_iter_failed)
next
  assume a: "\<not> fst (captures s (clock s)) \<and> fst (captures s (Suc (clock s))) \<and>
    find_all_elements cv
      (files (snd (take_screenshot screen_png (snd (take_screenshot screen_png s)))))
      ''right.png'' screen_png default_threshold = Inr (c # cs) \<and>
    download_all_photos_from_entry dry_run cv
      (sleep 1 (tap_element OpenEntry (fst c) (snd c)
         (snd (take_screenshot screen_png (snd (take_screenshot screen_png s)))))) =
      (None, s3)"
  then have it: "walk_iter dry_run cv s = (Next, scroll_down_one_entry c s3)"
    by (simp add: walk_iter_def tap_one_entry_def case_prod_beta)
  show "walk_iter dry_run cv s = (Next, scroll_down_one_entry c s3)"
    by (rule it)
  show "walk_loop (Suc n) dry_run cv s = walk_loop n dry_run cv (scroll_down_one_entry c s3)"
    by (simp add: it)
next
  assume a: "fst (captures s (clock s)) \<and>
    find_element cv (files (snd (take_screenshot screen_png s))) ''loadmore.png'' screen_png
      default_threshold = Inr None \<and>
    \<not> fst (captures s (Suc (clock s)))"
  then have it: "walk_iter dry_run cv s =
        (Next, snd (take_screenshot screen_png (snd (take_screenshot screen_png s))))"
    by (simp add: walk_iter_def tap_one_entry_def case_prod_beta)
  show "walk_iter dry_run cv s =
        (Next, snd (take_screenshot screen_png (snd (take_screenshot screen_png s))))"
    by (rule it)
  show "walk_loop (Suc n) dry_run cv s =
        walk_loop n dry_run cv
          (snd (take_screenshot screen_png (snd (take_screenshot screen_png s))))"
    by (simp add: it)
next
  assume a: "\<forall>k. \<not> fst (captures s k)"
  from walk_loop_all_failed [OF a, of 10000 dry_run cv]
  show "fst (main dry_run cv s) = Ceiling"
    and "clock (snd (main dry_run cv s)) = clock s + 20000"
    and "trace (snd (main dry_run cv s)) = trace s @ replicate 20000 (Screencap False)"
    by (simp_all add: main_def)
qed

theorem capture_failure_policy_witness:
  "walk_iter False toy_cv (toy_world capture_gap_script) =
     (Next,
      scroll_down_one_entry (3, 1)
        (snd (download_all_photos_from_entry False toy_cv
           (sleep 1 (tap_element OpenEntry 3 1
              (snd (take_screenshot screen_png
                 (snd (take_screenshot screen_png (toy_world capture_gap_script)))))))))) \<and>
   trace (snd (walk_iter False toy_cv (toy_world capture_gap_script))) =
     [Screencap False, Screencap True, Tap OpenEntry 3 1, Sleep 1,
      Screencap True, Tap Download 2 0, Sleep 1, Tap Download 4 1, Sleep 1,
      Screencap True, Sleep 1, Tap GoBack 2 0, Sleep 1,
      Swipe EntryScroll 500 1 500 450 1000] \<and>
   walk_iter False toy_cv (toy_world second_capture_fails) =
     (Next,
      \<lparr>captures = second_capture_fails, clock = 2,
       files = toy_templates(screen_png \<mapsto> frame_list),
       trace = [Screencap True, Screencap False]\<rparr>) \<and>
   entry_loop 100 False toy_cv (toy_world (\<lambda>n. (False, []))) =
     (Screenshot_failed,
      \<lparr>captures = (\<lambda>n. (False, [])), clock = 1, files = toy_templates(screen_png \<mapsto> []),
       trace = [Screencap False]\<rparr>) \<and>
   fst (main False toy_cv (toy_world (\<lambda>n. (False, [])))) = Ceiling \<and>
   clock (snd (main False toy_cv (toy_world (\<lambda>n. (False, []))))) = 20000 \<and>
   trace (snd (main False toy_cv (toy_world (\<lambda>n. (False, []))))) =
     replicate 20000 (Screencap False)"
proof -
  let ?a = "toy_world capture_gap_script"
  let ?a2 = "snd (take_screenshot screen_png (snd (take_screenshot screen_png ?a)))"
  let ?a3 = "snd (download_all_photos_from_entry False toy_cv
           (sleep 1 (tap_element OpenEntry 3 1 ?a2)))"
  have a1: "\<not> fst (captures ?a (clock ?a))"
    by (simp add: toy_world_def capture_gap_script_def)
  have a2: "fst (captures ?a (Suc (clock ?a)))"
    by (simp add: toy_world_def capture_gap_script_def)
  have a3: "find_all_elements toy_cv (files ?a2) ''right.png'' screen_png default_threshold =
              Inr [(3, 1)]"
    by code_simp
  have "fst (download_all_photos_from_entry False toy_cv
           (sleep 1 (tap_element OpenEntry 3 1 ?a2))) = None"
    by code_simp
  then have a4: "download_all_photos_from_entry False toy_cv
           (sleep 1 (tap_element OpenEntry (fst (3, 1)) (snd (3, 1)) ?a2)) = (None, ?a3)"
    by (simp add: prod_eq_iff)
  have A: "walk_iter False toy_cv ?a = (Next, scroll_down_one_entry (3, 1) ?a3)"
    using capture_failure_policy [where s = ?a and c = "(3, 1)" and cs = "[]" and cv = toy_cv
        and dry_run = False and ?s3.0 = ?a3 and n = 0] a1 a2 a3 a4
    by blast
  have A': "trace (snd (walk_iter False toy_cv ?a)) =
     [Screencap False, Screencap True, Tap OpenEntry 3 1, Sleep 1,
      Screencap True, Tap Download 2 0, Sleep 1, Tap Download 4 1, Sleep 1,
      Screencap True, Sleep 1, Tap GoBack 2 0, Sleep 1,
      Swipe EntryScroll 500 1 500 450 1000]"
    by code_simp
  let ?b = "toy_world second_capture_fails"
  have b1: "fst (captures ?b (clock ?b))"
    by (simp add: toy_world_def second_capture_fails_def)
  have b2: "find_element toy_cv (files (snd (take_screenshot screen_png ?b))) ''loadmore.png''
              screen_png default_threshold = Inr None"
    by code_simp
  have b3: "\<not> fst (captures ?b (Suc (clock ?b)))"
    by (simp add: toy_world_def second_capture_fails_def)
  have "walk_iter False toy_cv ?b =
          (Next, snd (take_screenshot screen_png (snd (take_screenshot screen_png ?b))))"
    using capture_failure_policy [where s = ?b and cv = toy_cv and dry_run = False and n = 0] b1 b2 b3
    by blast
  then have B: "walk_iter False toy_cv ?b =
     (Next,
      \<lparr>captures = second_capture_fails, clock = 2,
       files = toy_templates(screen_png \<mapsto> frame_list),
       trace = [Screencap True, Screencap False]\<rparr>)"
    by (simp add: take_screenshot_def toy_world_def second_capture_fails_def)
  let ?c = "toy_world (\<lambda>n. (False, []))"
  have C: "entry_loop 100 False toy_cv ?c =
     (Screenshot_failed,
      \<lparr>captures = (\<lambda>n. (False, [])), clock = 1, files = toy_templates(screen_png \<mapsto> []),
       trace = [Screencap False]\<rparr>) \<and>
   fst (main False toy_cv ?c) = Ceiling \<and>
   clock (snd (main False toy_cv ?c)) = 20000 \<and>
   trace (snd (main False toy_cv ?c)) = replicate 20000 (Screencap False)"
    using capture_failure_policy [where s = ?c and cv = toy_cv and dry_run = False and n = 99]
    by (simp add: toy_world_def take_screenshot_def)
  from A A' B C show ?thesis by blast
qed

text \<open>
  C6, as the spec states it, fails in the per-entry loop: when the first capture fails
  and every later one would succeed, the loop ends after that single capture instead of
  going on with its remaining 99 iterations.
\<close>

theorem capture_failure_counterexample:
  "fst (captures (toy_world (\<lambda>n. (0 < n, frame_blank))) 1) = True \<and>
   entry_loop 100 False toy_cv (toy_world (\<lambda>n. (0 < n, frame_blank))) =
     (Screenshot_failed,
      \<lparr>captures = (\<lambda>n. (0 < n, frame_blank)), clock = 1,
       files = toy_templates(screen_png \<mapsto> frame_blank), trace = [Screencap False]\<rparr>)"
proof -
  have "entry_iter False toy_cv (toy_world (\<lambda>n. (0 < n, frame_blank))) =
     (Exit Screenshot_failed,
      \<lparr>captures = (\<lambda>n. (0 < n, frame_blank)), clock = 1,
       files = toy_templates(screen_png \<mapsto> frame_blank), trace = [Screencap False]\<rparr>)"
    by (simp add: entry_iter_def toy_world_def take_screenshot_def)
  then show ?thesis
    by (simp add: entry_loop_Exit toy_world_def)
qed

section \<open>Claims about the back-button pass\<close>

lemma back_loop_events:
  "\<exists>k tl. trace (snd (back_loop n cv s)) =
            trace s @ concat (replicate k [Screencap True, Sleep 1]) @ tl \<and>
          (tl = [] \<and> k \<le> n \<or> tl = [Screencap False] \<and> k < n \<or>
           (\<exists>x y. tl = [Screencap True, Sleep 1, Tap GoBack x y, Sleep 1]) \<and> k < n)"
proof (induction n arbitrary: s)
  case 0
  have "trace (snd (back_loop 0 cv s)) = trace s @ concat (replicate 0 [Screencap True, Sleep 1]) @ []"
    by simp
  then show ?case by blast
next
  case (Suc n)
  let ?s1 = "snd (take_screenshot screen_png s)"
  let ?s2 = "sleep 1 ?s1"
  show ?case
  proof (cases "fst (captures s (clock s))")
    case False
    then have "trace (snd (back_loop (Suc n) cv s)) =
        trace s @ concat (replicate 0 [Screencap True, Sleep 1]) @ [Screencap False]"
      by (simp add: case_prod_beta)
    then show ?thesis by blast
  next
    case ok: True
    have tr2: "trace ?s2 = trace s @ [Screencap True, Sleep 1]"
      using ok by (simp add: sleep_def)
    show ?thesis
    proof (cases "find_element cv (files ?s2) ''back.png'' screen_png default_threshold")
      case (Inl e)
      then have "back_loop (Suc n) cv s = (Some e, ?s2)"
        using ok by (simp add: case_prod_beta)
      then have "trace (snd (back_loop (Suc n) cv s)) =
          trace s @ concat (replicate 1 [Screencap True, Sleep 1]) @ []"
        using tr2 by simp
      then show ?thesis by (intro exI [of _ 1] exI [of _ Nil]) simp
    next
      case (Inr r)
      show ?thesis
      proof (cases r)
        case None
        then have eq: "back_loop (Suc n) cv s = back_loop n cv ?s2"
          using ok Inr by (simp add: case_prod_beta)
        from Suc.IH [of ?s2] obtain k tl where
          k: "trace (snd (back_loop n cv ?s2)) =
                trace ?s2 @ concat (replicate k [Screencap True, Sleep 1]) @ tl"
          and sh: "tl = [] \<and> k \<le> n \<or> tl = [Screencap False] \<and> k < n \<or>
           (\<exists>x y. tl = [Screencap True, Sleep 1, Tap GoBack x y, Sleep 1]) \<and> k < n"
          by blast
        have "trace (snd (back_loop (Suc n) cv s)) =
                trace s @ concat (replicate (Suc k) [Screencap True, Sleep 1]) @ tl"
          using eq k tr2 by simp
        moreover have "tl = [] \<and> Suc k \<le> Suc n \<or> tl = [Screencap False] \<and> Suc k < Suc n \<or>
           (\<exists>x y. tl = [Screencap True, Sleep 1, Tap GoBack x y, Sleep 1]) \<and> Suc k < Suc n"
          using sh by auto
        ultimately show ?thesis by blast
      next
        case (Some coord)
        then have "back_loop (Suc n) cv s =
            (None, sleep 1 (tap_element GoBack (fst coord) (snd coord) ?s2))"
          using ok Inr by (simp add: case_prod_beta)
        then have "trace (snd (back_loop (Suc n) cv s)) =
            trace s @ concat (replicate 0 [Screencap True, Sleep 1]) @
              [Screencap True, Sleep 1, Tap GoBack (fst coord) (snd coord), Sleep 1]"
          using tr2 by (simp add: sleep_def tap_element_def)
        then show ?thesis by blast
      qed
    qed
  qed
qed

lemma filter_download_taps:
  assumes "dry_run \<or> (\<forall>x y. \<not> P (Tap Download x y))" and "\<not> P (Sleep 1)"
  shows "filter P (if dry_run then []
           else concat (map (\<lambda>c. [Tap Download (fst c) (snd c), Sleep 1]) coords)) = []"
  using assms by (induction coords) auto

lemma entry_iter_filter:
  assumes "\<And>ok. \<not> P (Screencap ok)" and "\<And>n. \<not> P (Sleep n)"
    and "\<And>st a b c d e. \<not> P (Swipe st a b c d e)"
    and "\<And>x y. \<not> P (Tap ClosePhoto x y)"
    and "dry_run \<or> (\<forall>x y. \<not> P (Tap Download x y))"
  shows "filter P (trace (snd (entry_iter dry_run cv s))) = filter P (trace s)"
  using assms filter_download_taps [of dry_run P]
  by (auto simp: entry_iter_def case_prod_beta tap_downloads_trace scroll_def
      scroll_down_one_picture_def sleep_def tap_element_def
      split: sum.splits option.splits list.splits)

lemma entry_loop_filter:
  assumes "\<And>ok. \<not> P (Screencap ok)" and "\<And>n. \<not> P (Sleep n)"
    and "\<And>st a b c d e. \<not> P (Swipe st a b c d e)"
    and "\<And>x y. \<not> P (Tap ClosePhoto x y)"
    and "dry_run \<or> (\<forall>x y. \<not> P (Tap Download x y))"
  shows "filter P (trace (snd (entry_loop n dry_run cv s))) = filter P (trace s)"
proof (induction n arbitrary: s)
  case 0
  then show ?case by simp
next
  case (Suc n)
  have it: "filter P (trace (snd (entry_iter dry_run cv s))) = filter P (trace s)"
    by (rule entry_iter_filter) (use assms in auto)
  show ?case
  proof (cases "entry_iter dry_run cv s")
    case (Pair f s')
    then show ?thesis using it Suc.IH [of s'] by (cases f) simp_all
  qed
qed

lemma count_screencaps:
  "length (filter is_screencap (concat (replicate k [Screencap True, Sleep n]))) = k"
  by (induction k) simp_all

lemma count_back_taps:
  "filter is_back_tap (concat (replicate k [Screencap True, Sleep n])) = []"
  by (induction k) simp_all

text \<open>
  C10. What the back-button loop adds to the log is some attempts that found nothing
  (a capture and a pause each), followed by nothing more, by one failed capture, or by one
  attempt that found the button (capture, pause, tap, pause): at most five captures, at
  most one tap on the back button, and nothing after that tap or after a failed capture.
  The whole of \<open>download_all_photos_from_entry\<close> adds at most one tap on the back button.
\<close>

theorem back_tapped_at_most_once:
  "(\<exists>evs k tl. trace (snd (back_loop 5 cv s)) = trace s @ evs \<and>
       evs = concat (replicate k [Screencap True, Sleep 1]) @ tl \<and>
       (tl = [] \<or> tl = [Screencap False] \<or>
        (\<exists>x y. tl = [Screencap True, Sleep 1, Tap GoBack x y, Sleep 1])) \<and>
       length (filter is_screencap evs) \<le> 5 \<and>
       length (filter is_back_tap evs) \<le> 1) \<and>
   length (filter is_back_tap (trace (snd (download_all_photos_from_entry dry_run cv s))))
     \<le> Suc (length (filter is_back_tap (trace s)))"
proof -
  have shape: "\<exists>evs k tl. trace (snd (back_loop 5 cv s')) = trace s' @ evs \<and>
       evs = concat (replicate k [Screencap True, Sleep 1]) @ tl \<and>
       (tl = [] \<or> tl = [Screencap False] \<or>
        (\<exists>x y. tl = [Screencap True, Sleep 1, Tap GoBack x y, Sleep 1])) \<and>
       length (filter is_screencap evs) \<le> 5 \<and>
       length (filter is_back_tap evs) \<le> 1" for s' :: "'a world"
  proof -
    from back_loop_events [of 5 cv s'] obtain k tl where
      tr: "trace (snd (back_loop 5 cv s')) =
             trace s' @ concat (replicate k [Screencap True, Sleep 1]) @ tl"
      and sh: "tl = [] \<and> k \<le> 5 \<or> tl = [Screencap False] \<and> k < 5 \<or>
           (\<exists>x y. tl = [Screencap True, Sleep 1, Tap GoBack x y, Sleep 1]) \<and> k < 5"
      by blast
    let ?evs = "concat (replicate k [Screencap True, Sleep 1]) @ tl"
    have "length (filter is_screencap ?evs) \<le> 5"
      using sh by (auto simp: count_screencaps)
    moreover have "length (filter is_back_tap ?evs) \<le> 1"
      using sh by (auto simp: count_back_taps)
    moreover have "tl = [] \<or> tl = [Screencap False] \<or>
        (\<exists>x y. tl = [Screencap True, Sleep 1, Tap GoBack x y, Sleep 1])"
      using sh by blast
    ultimately show ?thesis using tr by blast
  qed
  obtain r s1 where el: "entry_loop 100 dry_run cv s = (r, s1)"
    by (cases "entry_loop 100 dry_run cv s")
  have quiet: "filter is_back_tap (trace s1) = filter is_back_tap (trace s)"
    using entry_loop_filter [of is_back_tap dry_run 100 cv s] el by simp
  have "length (filter is_back_tap (trace (snd (back_loop 5 cv s1))))
          \<le> Suc (length (filter is_back_tap (trace s1)))"
    using shape [of s1] by auto
  then have "length (filter is_back_tap
                (trace (snd (download_all_photos_from_entry dry_run cv s))))
     \<le> Suc (length (filter is_back_tap (trace s)))"
    using el quiet by (cases r) (simp_all add: download_all_photos_from_entry_def)
  with shape [of s] show ?thesis by blast
qed

theorem back_tapped_at_most_once_witness:
  "length (filter is_back_tap (trace (snd (download_all_photos_from_entry False toy_cv
      (toy_world (\<lambda>n. (True, frame_back)))))))
     \<le> Suc (length (filter is_back_tap (trace (toy_world (\<lambda>n. (True, frame_back)))))) \<and>
   trace (snd (back_loop 5 toy_cv (toy_world (\<lambda>n. (True, frame_back))))) =
     [Screencap True, Sleep 1, Tap GoBack 2 0, Sleep 1]"
proof
  show "length (filter is_back_tap (trace (snd (download_all_photos_from_entry False toy_cv
      (toy_world (\<lambda>n. (True, frame_back)))))))
     \<le> Suc (length (filter is_back_tap (trace (toy_world (\<lambda>n. (True, frame_back))))))"
    using back_tapped_at_most_once
      [of toy_cv "toy_world (\<lambda>n. (True, frame_back))" False]
    by blast
  show "trace (snd (back_loop 5 toy_cv (toy_world (\<lambda>n. (True, frame_back))))) =
     [Screencap True, Sleep 1, Tap GoBack 2 0, Sleep 1]"
    by code_simp
qed

section \<open>Claims about runs that see no glyph\<close>

lemma no_glyph_everD:
  assumes "no_glyph_ever cv s" and "g \<in> set glyphs"
  shows "fst (captures s n)"
    and "find_element cv ((files s)(screen_png \<mapsto> snd (captures s n))) g screen_png
               default_threshold = Inr None"
    and "find_all_elements cv ((files s)(screen_png \<mapsto> snd (captures s n))) g screen_png
               default_threshold = Inr []"
  using assms unfolding no_glyph_ever_def by blast+

lemma no_glyph_ever_cong:
  assumes "no_glyph_ever cv s" and "captures s' = captures s"
    and "files s' = (files s)(screen_png \<mapsto> b)"
  shows "no_glyph_ever cv s'"
  using assms unfolding no_glyph_ever_def by simp

lemma entry_iter_no_glyph:
  assumes "no_glyph_ever cv s"
  shows "entry_iter dry_run cv s =
           (Next, scroll FallbackScroll 500 2200 500 495 1000
                    (snd (take_screenshot screen_png s)))"
proof -
  have ok: "fst (captures s (clock s))"
    using no_glyph_everD(1) [OF assms, of "''closepic.png''"] by (simp add: glyphs_def)
  have a: "find_element cv (files (snd (take_screenshot screen_png s))) ''closepic.png''
             screen_png default_threshold = Inr None"
    using no_glyph_everD(2) [OF assms, of "''closepic.png''"] by (simp add: glyphs_def)
  have b: "find_element cv (files (snd (take_screenshot screen_png s)))
             ''add_your_comment.png'' screen_png default_threshold = Inr None"
    using no_glyph_everD(2) [OF assms, of "''add_your_comment.png''"] by (simp add: glyphs_def)
  have c: "find_all_elements cv (files (snd (take_screenshot screen_png s)))
             ''download.png'' screen_png default_threshold = Inr []"
    using no_glyph_everD(3) [OF assms, of "''download.png''"] by (simp add: glyphs_def)
  show ?thesis
    using ok a b c by (simp add: entry_iter_def case_prod_beta)
qed

lemma entry_loop_no_glyph:
  assumes "no_glyph_ever cv s"
  shows "fst (entry_loop n dry_run cv s) = Budget_exhausted \<and>
         clock (snd (entry_loop n dry_run cv s)) = clock s + n \<and>
         trace (snd (entry_loop n dry_run cv s)) =
           trace s @ concat (replicate n [Screencap True,
                                          Swipe FallbackScroll 500 2200 500 495 1000])"
  using assms
proof (induction n arbitrary: s)
  case 0
  then show ?case by simp
next
  case (Suc n)
  let ?s' = "scroll FallbackScroll 500 2200 500 495 1000 (snd (take_screenshot screen_png s))"
  have ok: "fst (captures s (clock s))"
    using no_glyph_everD(1) [OF Suc.prems, of "''closepic.png''"] by (simp add: glyphs_def)
  have "no_glyph_ever cv ?s'"
    by (rule no_glyph_ever_cong [OF Suc.prems]) (simp_all add: scroll_def)
  from Suc.IH [OF this] show ?case
    using entry_iter_no_glyph [OF Suc.prems, of dry_run] ok
    by (simp add: scroll_def)
qed

lemma walk_iter_no_glyph:
  assumes "no_glyph_ever cv s"
  shows "walk_iter dry_run cv s =
           (Exit No_progress,
            snd (take_screenshot screen_png (snd (take_screenshot screen_png s))))"
proof -
  have ok: "fst (captures s n)" for n
    using no_glyph_everD(1) [OF assms, of "''closepic.png''"] by (simp add: glyphs_def)
  have a: "find_element cv (files (snd (take_screenshot screen_png s))) ''loadmore.png''
             screen_png default_threshold = Inr None"
    using no_glyph_everD(2) [OF assms, of "''loadmore.png''"] by (simp add: glyphs_def)
  have b: "find_all_elements cv
             (files (snd (take_screenshot screen_png (snd (take_screenshot screen_png s)))))
             ''right.png'' screen_png default_threshold = Inr []"
    using no_glyph_everD(3) [OF assms, of "''right.png''"] by (simp add: glyphs_def)
  show ?thesis
    using ok a b by (simp add: walk_iter_def tap_one_entry_def case_prod_beta)
qed

lemma back_loop_no_glyph:
  assumes "no_glyph_ever cv s"
  shows "fst (back_loop n cv s) = None \<and>
         clock (snd (back_loop n cv s)) = clock s + n \<and>
         trace (snd (back_loop n cv s)) =
           trace s @ concat (replicate n [Screencap True, Sleep 1]) \<and>
         captures (snd (back_loop n cv s)) = captures s"
  using assms
proof (induction n arbitrary: s)
  case 0
  then show ?case by simp
next
  case (Suc n)
  let ?s2 = "sleep 1 (snd (take_screenshot screen_png s))"
  have ok: "fst (captures s (clock s))"
    using no_glyph_everD(1) [OF Suc.prems, of "''back.png''"] by (simp add: glyphs_def)
  have nf: "find_element cv (files ?s2) ''back.png'' screen_png default_threshold = Inr None"
    using no_glyph_everD(2) [OF Suc.prems, of "''back.png''"]
    by (simp add: glyphs_def sleep_def)
  have step: "back_loop (Suc n) cv s = back_loop n cv ?s2"
    using ok nf by (simp add: case_prod_beta Let_def)
  have "no_glyph_ever cv ?s2"
    by (rule no_glyph_ever_cong [OF Suc.prems]) (simp_all add: sleep_def)
  from Suc.IH [OF this] show ?case
    unfolding step using ok by (simp add: sleep_def)
qed

lemma entry_loop_no_glyph_world:
  assumes "no_glyph_ever cv s"
  shows "no_glyph_ever cv (snd (entry_loop n dry_run cv s))"
  using assms
proof (induction n arbitrary: s)
  case 0
  then show ?case by simp
next
  case (Suc n)
  let ?s' = "scroll FallbackScroll 500 2200 500 495 1000 (snd (take_screenshot screen_png s))"
  have "no_glyph_ever cv ?s'"
    by (rule no_glyph_ever_cong [OF Suc.prems]) (simp_all add: scroll_def)
  from Suc.IH [OF this] show ?case
    using entry_iter_no_glyph [OF Suc.prems, of dry_run] by simp
qed

lemma download_all_no_glyph:
  assumes "no_glyph_ever cv s"
  shows "fst (download_all_photos_from_entry dry_run cv s) = None \<and>
         clock (snd (download_all_photos_from_entry dry_run cv s)) = clock s + 105 \<and>
         trace (snd (download_all_photos_from_entry dry_run cv s)) =
           trace s @
           concat (replicate 100 [Screencap True, Swipe FallbackScroll 500 2200 500 495 1000]) @
           concat (replicate 5 [Screencap True, Sleep 1])"
proof -
  obtain r s1 where el: "entry_loop 100 dry_run cv s = (r, s1)"
    by (cases "entry_loop 100 dry_run cv s")
  from entry_loop_no_glyph [OF assms, of 100 dry_run] el
  have r: "r = Budget_exhausted" and c: "clock s1 = clock s + 100"
    and t: "trace s1 = trace s @
           concat (replicate 100 [Screencap True, Swipe FallbackScroll 500 2200 500 495 1000])"
    by simp_all
  have "no_glyph_ever cv s1"
    using entry_loop_no_glyph_world [OF assms, of 100 dry_run] el by simp
  from back_loop_no_glyph [OF this, of 5]
  show ?thesis
    using el r c t by (simp add: download_all_photos_from_entry_def)
qed

lemma toy_blank_no_glyph: "no_glyph_ever toy_cv (toy_world (\<lambda>n. (True, frame_blank)))"
proof -
  have "find_element toy_cv (toy_templates(screen_png \<mapsto> frame_blank)) g screen_png
          default_threshold = Inr None \<and>
        find_all_elements toy_cv (toy_templates(screen_png \<mapsto> frame_blank)) g screen_png
          default_threshold = Inr []" if "g \<in> set glyphs" for g
  proof -
    from that have "g = ''closepic.png'' \<or> g = ''add_your_comment.png'' \<or>
        g = ''download.png'' \<or> g = ''back.png'' \<or> g = ''loadmore.png'' \<or>
        g = ''right.png''"
      by (simp add: glyphs_def)
    then show ?thesis
      by (elim disjE; hypsubst; code_simp)
  qed
  then show ?thesis
    by (simp add: no_glyph_ever_def toy_world_def)
qed

text \<open>
  C2. When every capture succeeds and no query finds a match, the per-entry loop uses up
  its range and ends with the exit \<open>Budget_exhausted\<close>: \<open>download_all_photos_from_entry\<close>
  makes exactly 100 captures, each followed by the fallback swipe, then the five fruitless
  attempts of the back-button loop (a capture and a pause each), 105 captures in all, and
  raises nothing. The main program makes its two captures, finds no right arrow and stops
  in its first iteration with the exit \<open>No_progress\<close>.
\<close>

theorem no_match_run_is_bounded:
  assumes "no_glyph_ever cv s"
  shows "fst (entry_loop 100 dry_run cv s) = Budget_exhausted \<and>
         clock (snd (entry_loop 100 dry_run cv s)) = clock s + 100 \<and>
         trace (snd (entry_loop 100 dry_run cv s)) =
           trace s @ concat (replicate 100 [Screencap True,
                                            Swipe FallbackScroll 500 2200 500 495 1000]) \<and>
         fst (download_all_photos_from_entry dry_run cv s) = None \<and>
         clock (snd (download_all_photos_from_entry dry_run cv s)) = clock s + 105 \<and>
         trace (snd (download_all_photos_from_entry dry_run cv s)) =
           trace s @
           concat (replicate 100 [Screencap True, Swipe FallbackScroll 500 2200 500 495 1000]) @
           concat (replicate 5 [Screencap True, Sleep 1]) \<and>
         fst (main dry_run cv s) = No_progress \<and>
         clock (snd (main dry_run cv s)) = clock s + 2 \<and>
         trace (snd (main dry_run cv s)) = trace s @ [Screencap True, Screencap True]"
proof -
  have ok: "fst (captures s n)" for n
    using no_glyph_everD(1) [OF assms, of "''closepic.png''"] by (simp add: glyphs_def)
  have "main dry_run cv s =
          (No_progress, snd (take_screenshot screen_png (snd (take_screenshot screen_png s))))"
    using walk_iter_no_glyph [OF assms, of dry_run]
    by (simp add: main_def walk_loop_Exit)
  then show ?thesis
    using entry_loop_no_glyph [OF assms, of 100 dry_run]
      download_all_no_glyph [OF assms, of dry_run] ok
    by simp
qed

theorem no_match_run_is_bounded_witness:
  "fst (entry_loop 100 False toy_cv (toy_world (\<lambda>n. (True, frame_blank)))) = Budget_exhausted \<and>
   clock (snd (entry_loop 100 False toy_cv (toy_world (\<lambda>n. (True, frame_blank))))) = 100 \<and>
   fst (download_all_photos_from_entry False toy_cv (toy_world (\<lambda>n. (True, frame_blank)))) =
     None \<and>
   clock (snd (download_all_photos_from_entry False toy_cv
                 (toy_world (\<lambda>n. (True, frame_blank))))) = 105 \<and>
   trace (snd (download_all_photos_from_entry False toy_cv
                 (toy_world (\<lambda>n. (True, frame_blank))))) =
     concat (replicate 100 [Screencap True, Swipe FallbackScroll 500 2200 500 495 1000]) @
     concat (replicate 5 [Screencap True, Sleep 1]) \<and>
   fst (main False toy_cv (toy_world (\<lambda>n. (True, frame_blank)))) = No_progress \<and>
   trace (snd (main False toy_cv (toy_world (\<lambda>n. (True, frame_blank))))) =
     [Screencap True, Screencap True]"
  using no_match_run_is_bounded [OF toy_blank_no_glyph, of False]
  by (simp add: toy_world_def)

section \<open>Claims about dry runs\<close>

lemma back_loop_no_download:
  "filter is_download_tap (trace (snd (back_loop n cv s))) = filter is_download_tap (trace s)"
proof (induction n arbitrary: s)
  case 0
  then show ?case by simp
next
  case (Suc n)
  show ?case
    using Suc.IH [of "sleep 1 (snd (take_screenshot screen_png s))"]
    by (auto simp: case_prod_beta Let_def sleep_def tap_element_def
        split: sum.splits option.splits)
qed

lemma entry_loop_no_download:
  "filter is_download_tap (trace (snd (entry_loop n True cv s))) =
     filter is_download_tap (trace s)"
  by (rule entry_loop_filter) simp_all

lemma download_all_no_download:
  "filter is_download_tap (trace (snd (download_all_photos_from_entry True cv s))) =
     filter is_download_tap (trace s)"
proof (cases "entry_loop 100 True cv s")
  case (Pair r s1)
  then have "filter is_download_tap (trace s1) = filter is_download_tap (trace s)"
    using entry_loop_no_download [of 100 cv s] by simp
  then show ?thesis
    using Pair back_loop_no_download [of 5 cv s1]
    by (cases r) (simp_all add: download_all_photos_from_entry_def)
qed

lemma tap_one_entry_no_download:
  "filter is_download_tap (trace (snd (tap_one_entry True cv s))) =
     filter is_download_tap (trace s)"
proof -
  have "filter is_download_tap (trace (snd (download_all_photos_from_entry True cv
           (sleep 1 (tap_element OpenEntry x y (snd (take_screenshot screen_png s))))))) =
        filter is_download_tap (trace s)" for x y
    by (simp add: download_all_no_download sleep_def tap_element_def)
  then show ?thesis
    by (auto simp: tap_one_entry_def case_prod_beta scroll_down_one_entry_def scroll_def
        split: sum.splits list.splits option.splits prod.splits)
qed

lemma walk_iter_no_download:
  "filter is_download_tap (trace (snd (walk_iter True cv s))) =
     filter is_download_tap (trace s)"
  using tap_one_entry_no_download [of cv "snd (take_screenshot screen_png s)"]
  by (auto simp: walk_iter_def case_prod_beta split: sum.splits option.splits)

lemma walk_loop_no_download:
  "filter is_download_tap (trace (snd (walk_loop n True cv s))) =
     filter is_download_tap (trace s)"
proof (induction n arbitrary: s)
  case 0
  then show ?case by simp
next
  case (Suc n)
  show ?case
  proof (cases "walk_iter True cv s")
    case (Pair f s')
    then show ?thesis
      using walk_iter_no_download [of cv s] Suc.IH [of s'] by (cases f) simp_all
  qed
qed

lemma same_navigation_screenshot:
  assumes "same_navigation s1 s2"
  shows "fst (take_screenshot p s1) = fst (take_screenshot p s2)"
    and "same_navigation (snd (take_screenshot p s1)) (snd (take_screenshot p s2))"
  using assms by (simp_all add: same_navigation_def)

lemma same_navigation_files: "same_navigation s1 s2 \<Longrightarrow> files s1 = files s2"
  by (simp add: same_navigation_def)

lemma same_navigation_both:
  assumes "same_navigation s1 s2"
  shows "same_navigation (sleep n s1) (sleep m s2)"
    and "same_navigation (tap_element st x y s1) (tap_element st x y s2)"
    and "same_navigation (scroll st a b c d e s1) (scroll st a b c d e s2)"
    and "same_navigation s1 (sleep m (tap_element Download x y s2))"
  using assms by (simp_all add: same_navigation_def sleep_def tap_element_def scroll_def)

lemma same_navigation_tap_downloads:
  assumes "same_navigation s1 s2"
  shows "same_navigation (tap_downloads True coords s1) (tap_downloads False coords s2)"
  using assms
  by (induction coords arbitrary: s2) (simp_all add: same_navigation_both(4))

lemma navigation_download_taps:
  "filter navigation (concat (map (\<lambda>c. [Tap Download (fst c) (snd c), Sleep 1]) coords)) = []"
  using filter_download_taps [of False navigation coords] by simp

lemma entry_iter_same_navigation:
  assumes "same_navigation s1 s2"
  shows "fst (entry_iter True cv s1) = fst (entry_iter False cv s2) \<and>
         same_navigation (snd (entry_iter True cv s1)) (snd (entry_iter False cv s2))"
proof -
  have eq: "captures s1 = captures s2" "clock s1 = clock s2" "files s1 = files s2"
    and nav: "filter navigation (trace s1) = filter navigation (trace s2)"
    using assms by (simp_all add: same_navigation_def)
  show ?thesis
    using nav
    by (simp add: entry_iter_def case_prod_beta Let_def eq same_navigation_def
        tap_downloads_trace navigation_download_taps scroll_down_one_picture_def scroll_def
        sleep_def tap_element_def
        split: sum.splits option.splits list.splits)
qed

lemma entry_loop_same_navigation:
  assumes "same_navigation s1 s2"
  shows "fst (entry_loop n True cv s1) = fst (entry_loop n False cv s2) \<and>
         same_navigation (snd (entry_loop n True cv s1)) (snd (entry_loop n False cv s2))"
  using assms
proof (induction n arbitrary: s1 s2)
  case 0
  then show ?case by simp
next
  case (Suc n)
  obtain f1 t1 where i1: "entry_iter True cv s1 = (f1, t1)"
    by (cases "entry_iter True cv s1")
  obtain f2 t2 where i2: "entry_iter False cv s2 = (f2, t2)"
    by (cases "entry_iter False cv s2")
  from entry_iter_same_navigation [OF Suc.prems, of cv] i1 i2
  have f: "f1 = f2" and t: "same_navigation t1 t2" by simp_all
  show ?case
  proof (cases f2)
    case Next
    then show ?thesis using i1 i2 f Suc.IH [OF t] by simp
  next
    case (Exit r)
    then show ?thesis using i1 i2 f t by simp
  qed
qed

lemma back_loop_same_navigation:
  assumes "same_navigation s1 s2"
  shows "fst (back_loop n cv s1) = fst (back_loop n cv s2) \<and>
         same_navigation (snd (back_loop n cv s1)) (snd (back_loop n cv s2))"
  using assms
proof (induction n arbitrary: s1 s2)
  case 0
  then show ?case by simp
next
  case (Suc n)
  let ?t1 = "sleep 1 (snd (take_screenshot screen_png s1))"
  let ?t2 = "sleep 1 (snd (take_screenshot screen_png s2))"
  have eq: "captures s1 = captures s2" "clock s1 = clock s2" "files s1 = files s2"
    and nav: "filter navigation (trace s1) = filter navigation (trace s2)"
    using Suc.prems by (simp_all add: same_navigation_def)
  have t: "same_navigation ?t1 ?t2"
    using nav by (simp add: same_navigation_def eq sleep_def)
  have fs: "files ?t1 = files ?t2"
    by (simp add: eq sleep_def)
  show ?case
  proof (cases "fst (captures s2 (clock s2))")
    case False
    then show ?thesis
      using nav by (simp add: case_prod_beta eq same_navigation_def)
  next
    case ok: True
    show ?thesis
    proof (cases "find_element cv (files ?t2) ''back.png'' screen_png default_threshold")
      case (Inl e)
      then show ?thesis
        using ok t fs by (simp add: case_prod_beta eq Let_def)
    next
      case (Inr r)
      show ?thesis
      proof (cases r)
        case None
        then show ?thesis
          using ok Inr fs Suc.IH [OF t] by (simp add: case_prod_beta eq Let_def)
      next
        case (Some coord)
        have "same_navigation
                (sleep 1 (tap_element GoBack (fst coord) (snd coord) ?t1))
                (sleep 1 (tap_element GoBack (fst coord) (snd coord) ?t2))"
          by (intro same_navigation_both t)
        then show ?thesis
          using ok Inr Some fs by (simp add: case_prod_beta eq Let_def)
      qed
    qed
  qed
qed

lemma download_all_same_navigation:
  assumes "same_navigation s1 s2"
  shows "fst (download_all_photos_from_entry True cv s1) =
           fst (download_all_photos_from_entry False cv s2) \<and>
         same_navigation (snd (download_all_photos_from_entry True cv s1))
           (snd (download_all_photos_from_entry False cv s2))"
proof -
  obtain r1 t1 where e1: "entry_loop 100 True cv s1 = (r1, t1)"
    by (cases "entry_loop 100 True cv s1")
  obtain r2 t2 where e2: "entry_loop 100 False cv s2 = (r2, t2)"
    by (cases "entry_loop 100 False cv s2")
  from entry_loop_same_navigation [OF assms, of 100 cv] e1 e2
  have r: "r1 = r2" and t: "same_navigation t1 t2" by simp_all
  show ?thesis
    using e1 e2 r t back_loop_same_navigation [OF t, of 5 cv]
    by (cases r2) (simp_all add: download_all_photos_from_entry_def)
qed

lemma tap_one_entry_same_navigation:
  assumes "same_navigation s1 s2"
  shows "fst (tap_one_entry True cv s1) = fst (tap_one_entry False cv s2) \<and>
         same_navigation (snd (tap_one_entry True cv s1)) (snd (tap_one_entry False cv s2))"
proof -
  let ?t1 = "snd (take_screenshot screen_png s1)"
  let ?t2 = "snd (take_screenshot screen_png s2)"
  have eq: "captures s1 = captures s2" "clock s1 = clock s2" "files s1 = files s2"
    using assms by (simp_all add: same_navigation_def)
  have t: "same_navigation ?t1 ?t2"
    using same_navigation_screenshot [OF assms] by blast
  have fs: "files ?t1 = files ?t2"
    by (simp add: eq)
  show ?thesis
  proof (cases "fst (captures s2 (clock s2))")
    case False
    then show ?thesis
      using t by (simp add: tap_one_entry_def case_prod_beta eq)
  next
    case ok: True
    show ?thesis
    proof (cases "find_all_elements cv (files ?t2) ''right.png'' screen_png default_threshold")
      case (Inl e)
      then show ?thesis
        using ok t fs by (simp add: tap_one_entry_def case_prod_beta eq)
    next
      case (Inr coords)
      show ?thesis
      proof (cases coords)
        case Nil
        then show ?thesis
          using ok Inr t fs by (simp add: tap_one_entry_def case_prod_beta eq)
      next
        case (Cons c cs)
        let ?u1 = "sleep 1 (tap_element OpenEntry (fst c) (snd c) ?t1)"
        let ?u2 = "sleep 1 (tap_element OpenEntry (fst c) (snd c) ?t2)"
        have u: "same_navigation ?u1 ?u2"
          by (intro same_navigation_both t)
        obtain r1 v1 where d1: "download_all_photos_from_entry True cv ?u1 = (r1, v1)"
          by (cases "download_all_photos_from_entry True cv ?u1")
        obtain r2 v2 where d2: "download_all_photos_from_entry False cv ?u2 = (r2, v2)"
          by (cases "download_all_photos_from_entry False cv ?u2")
        from download_all_same_navigation [OF u, of cv] d1 d2
        have r: "r1 = r2" and v: "same_navigation v1 v2" by simp_all
        have "same_navigation (scroll_down_one_entry c v1) (scroll_down_one_entry c v2)"
          unfolding scroll_down_one_entry_def by (intro same_navigation_both v)
        then show ?thesis
          using ok Inr Cons fs d1 d2 r v
          by (cases r2) (simp_all add: tap_one_entry_def case_prod_beta eq)
      qed
    qed
  qed
qed

lemma walk_iter_same_navigation:
  assumes "same_navigation s1 s2"
  shows "fst (walk_iter True cv s1) = fst (walk_iter False cv s2) \<and>
         same_navigation (snd (walk_iter True cv s1)) (snd (walk_iter False cv s2))"
proof -
  let ?t1 = "snd (take_screenshot screen_png s1)"
  let ?t2 = "snd (take_screenshot screen_png s2)"
  have eq: "captures s1 = captures s2" "clock s1 = clock s2" "files s1 = files s2"
    using assms by (simp_all add: same_navigation_def)
  have t: "same_navigation ?t1 ?t2"
    using same_navigation_screenshot [OF assms] by blast
  have fs: "files ?t1 = files ?t2"
    by (simp add: eq)
  show ?thesis
    using t tap_one_entry_same_navigation [OF t, of cv] fs
    by (simp add: walk_iter_def case_prod_beta eq split: sum.splits option.splits)
qed

lemma walk_loop_same_navigation:
  assumes "same_navigation s1 s2"
  shows "fst (walk_loop n True cv s1) = fst (walk_loop n False cv s2) \<and>
         same_navigation (snd (walk_loop n True cv s1)) (snd (walk_loop n False cv s2))"
  using assms
proof (induction n arbitrary: s1 s2)
  case 0
  then show ?case by simp
next
  case (Suc n)
  obtain f1 t1 where i1: "walk_iter True cv s1 = (f1, t1)"
    by (cases "walk_iter True cv s1")
  obtain f2 t2 where i2: "walk_iter False cv s2 = (f2, t2)"
    by (cases "walk_iter False cv s2")
  from walk_iter_same_navigation [OF Suc.prems, of cv] i1 i2
  have f: "f1 = f2" and t: "same_navigation t1 t2" by simp_all
  show ?case
  proof (cases f2)
    case Next
    then show ?thesis using i1 i2 f Suc.IH [OF t] by simp
  next
    case (Exit r)
    then show ?thesis using i1 i2 f t by simp
  qed
qed

text \<open>
  C1. Over the same script of captures, a dry run of the program adds no download tap
  to the log, and the taps and swipes it sends for every other purpose (opening an entry,
  closing a photo, the back button, the three kinds of scroll) are those of the run that
  is not dry, in the same order; both runs make the same number of captures and leave the
  main loop the same way.
\<close>

theorem dry_run_suppresses_only_download_taps:
  "filter is_download_tap (trace (snd (main True cv s))) = filter is_download_tap (trace s) \<and>
   filter navigation (trace (snd (main True cv s))) =
     filter navigation (trace (snd (main False cv s))) \<and>
   fst (main True cv s) = fst (main False cv s) \<and>
   clock (snd (main True cv s)) = clock (snd (main False cv s))"
proof -
  have "same_navigation s s"
    by (simp add: same_navigation_def)
  from walk_loop_same_navigation [OF this, of 10000 cv] walk_loop_no_download [of 10000 cv s]
  show ?thesis
    by (simp add: main_def same_navigation_def)
qed

theorem dry_run_suppresses_only_download_taps_witness:
  "filter navigation (trace (snd (main True toy_cv (toy_world one_entry_script)))) =
     filter navigation (trace (snd (main False toy_cv (toy_world one_entry_script)))) \<and>
   trace (snd (main True toy_cv (toy_world one_entry_script))) =
     [Screencap True, Screencap True, Tap OpenEntry 3 1, Sleep 1,
      Screencap True, Swipe PictureScroll 500 1 500 495 1000,
      Screencap True,
      Screencap True, Sleep 1, Tap GoBack 2 0, Sleep 1,
      Swipe EntryScroll 500 1 500 450 1000, Screencap True] \<and>
   trace (snd (main False toy_cv (toy_world one_entry_script))) =
     [Screencap True, Screencap True, Tap OpenEntry 3 1, Sleep 1,
      Screencap True, Tap Download 2 1, Sleep 1, Swipe PictureScroll 500 1 500 495 1000,
      Screencap True, Tap Download 2 0, Sleep 1, Tap Download 4 1, Sleep 1,
      Screencap True, Sleep 1, Tap GoBack 2 0, Sleep 1,
      Swipe EntryScroll 500 1 500 450 1000, Screencap True]"
proof (intro conjI)
  show "filter navigation (trace (snd (main True toy_cv (toy_world one_entry_script)))) =
     filter navigation (trace (snd (main False toy_cv (toy_world one_entry_script))))"
    using dry_run_suppresses_only_download_taps [of toy_cv "toy_world one_entry_script"]
    by blast
  show "trace (snd (main True toy_cv (toy_world one_entry_script))) =
     [Screencap True, Screencap True, Tap OpenEntry 3 1, Sleep 1,
      Screencap True, Swipe PictureScroll 500 1 500 495 1000,
      Screencap True,
      Screencap True, Sleep 1, Tap GoBack 2 0, Sleep 1,
      Swipe EntryScroll 500 1 500 450 1000, Screencap True]"
    by code_simp
  show "trace (snd (main False toy_cv (toy_world one_entry_script))) =
     [Screencap True, Screencap True, Tap OpenEntry 3 1, Sleep 1,
      Screencap True, Tap Download 2 1, Sleep 1, Swipe PictureScroll 500 1 500 495 1000,
      Screencap True, Tap Download 2 0, Sleep 1, Tap Download 4 1, Sleep 1,
      Screencap True, Sleep 1, Tap GoBack 2 0, Sleep 1,
      Swipe EntryScroll 500 1 500 450 1000, Screencap True]"
    by code_simp
qed

end
